theory Spec2Isabelle
  imports Complex_Main "HOL-Library.Log_Nat"
begin

section \<open>JavaScript numbers\<close>

text \<open>
  Every \<^verbatim>\<open>number\<close> of the TypeScript sources is an IEEE 754 binary64 value.
  A finite value is kept as the rational it denotes; the two infinities and NaN are
  separate constructors.  The sign of a zero is not kept: in the code modelled below the
  only divisors that can be zero are the lot sizes, whose zero is positive, and the
  \<^verbatim>\<open>amount\<close> argument, which then divides a zero, so that either sign gives NaN.
\<close>

datatype jsnum = Num rat | PosInf | NegInf | NaN

text \<open>
  \<open>ilog2 x\<close> is the binary exponent of a positive rational: the integer \<open>e\<close> with
  \<open>2 ^ e \<le> x < 2 ^ (e + 1)\<close>.
\<close>

definition ilog2 :: "rat \<Rightarrow> int" where
  "ilog2 x = (if 1 \<le> x then bitlen \<lfloor>x\<rfloor> - 1 else - bitlen (\<lceil>1 / x\<rceil> - 1))"

definition round_half_even :: "rat \<Rightarrow> int" where
  "round_half_even y =
     (let f = \<lfloor>y\<rfloor>; r = y - of_int f
      in if r < 1 / 2 then f else if 1 / 2 < r then f + 1 else if even f then f else f + 1)"

text \<open>
  Rounding to the nearest binary64 value, ties to even, with an unbounded exponent
  above: a significand of 53 bits, the unit in the last place being \<open>2 ^ (e - 52)\<close>,
  and the fixed spacing \<open>2 ^ (- 1074)\<close> of the subnormal range below \<open>2 ^ (- 1022)\<close>.
\<close>

definition rnd :: "rat \<Rightarrow> rat" where
  "rnd x = (if x = 0 then 0
            else let e = max (ilog2 \<bar>x\<bar>) (- 1022); u = power_int 2 (e - 52)
                 in of_int (round_half_even (x / u)) * u)"

text \<open>
  The result of an arithmetic operation: the rounded value, or an infinity on overflow,
  that is when the rounded value has a binary exponent above 1023 (a magnitude of
  \<open>2 ^ 1024\<close> or more).
\<close>

definition to_double :: "rat \<Rightarrow> jsnum" where
  "to_double x = (let r = rnd x
                  in if r = 0 \<or> ilog2 \<bar>r\<bar> < 1024 then Num r
                     else if 0 < r then PosInf else NegInf)"

text \<open>The operator \<^verbatim>\<open>*\<close>.\<close>

fun js_mul :: "jsnum \<Rightarrow> jsnum \<Rightarrow> jsnum" where
  "js_mul (Num a) (Num b) = to_double (a * b)"
| "js_mul NaN y = NaN"
| "js_mul x NaN = NaN"
| "js_mul PosInf (Num b) = (if b = 0 then NaN else if 0 < b then PosInf else NegInf)"
| "js_mul NegInf (Num b) = (if b = 0 then NaN else if 0 < b then NegInf else PosInf)"
| "js_mul (Num a) PosInf = (if a = 0 then NaN else if 0 < a then PosInf else NegInf)"
| "js_mul (Num a) NegInf = (if a = 0 then NaN else if 0 < a then NegInf else PosInf)"
| "js_mul PosInf PosInf = PosInf"
| "js_mul NegInf NegInf = PosInf"
| "js_mul PosInf NegInf = NegInf"
| "js_mul NegInf PosInf = NegInf"

text \<open>The operator \<^verbatim>\<open>/\<close>; a zero divisor is a positive zero.\<close>

fun js_div :: "jsnum \<Rightarrow> jsnum \<Rightarrow> jsnum" where
  "js_div (Num a) (Num b) =
     (if b = 0 then (if a = 0 then NaN else if 0 < a then PosInf else NegInf)
      else to_double (a / b))"
| "js_div NaN y = NaN"
| "js_div x NaN = NaN"
| "js_div PosInf (Num b) = (if 0 \<le> b then PosInf else NegInf)"
| "js_div NegInf (Num b) = (if 0 \<le> b then NegInf else PosInf)"
| "js_div (Num a) PosInf = Num 0"
| "js_div (Num a) NegInf = Num 0"
| "js_div PosInf PosInf = NaN"
| "js_div PosInf NegInf = NaN"
| "js_div NegInf PosInf = NaN"
| "js_div NegInf NegInf = NaN"

text \<open>\<^verbatim>\<open>Math.floor\<close> and the two-argument \<^verbatim>\<open>Math.max\<close>.\<close>

fun Math_floor :: "jsnum \<Rightarrow> jsnum" where
  "Math_floor (Num a) = Num (of_int \<lfloor>a\<rfloor>)"
| "Math_floor PosInf = PosInf"
| "Math_floor NegInf = NegInf"
| "Math_floor NaN = NaN"

fun Math_max :: "jsnum \<Rightarrow> jsnum \<Rightarrow> jsnum" where
  "Math_max NaN y = NaN"
| "Math_max x NaN = NaN"
| "Math_max PosInf y = PosInf"
| "Math_max x PosInf = PosInf"
| "Math_max NegInf y = y"
| "Math_max x NegInf = x"
| "Math_max (Num a) (Num b) = Num (max a b)"

text \<open>A decimal literal of the source text denotes the nearest binary64 value.\<close>

definition js_literal :: "rat \<Rightarrow> jsnum" where
  "js_literal r = to_double r"

section \<open>Errors and the big-number library\<close>

text \<open>
  The exceptions of the code.  \<open>AllEndpointsFailed\<close> is
  \<^verbatim>\<open>Error("All RPC endpoints failed")\<close>, \<open>MarketNotFound\<close> is
  \<^verbatim>\<open>Error("Market not found")\<close>, \<open>InvalidMarketAddress\<close> and
  \<open>OrderInstructionFailed\<close> are the two errors \<^verbatim>\<open>mintIrmaToken\<close> raises itself,
  \<open>BNAssertion\<close> is a failed assertion of the big-number library, and
  \<open>Rejected c\<close> is the failure of the external call \<open>c\<close>.
\<close>

datatype call =
    Throttle
  | GetSlot string
  | GetAccountInfo
  | NewClient
  | MarketFetch
  | CreateOpenOrdersIx
  | GetAssociatedTokenAddress
  | PlaceOrderIx
  | GetLatestBlockhash
  | SimulateTransaction
  | SignTransaction
  | Serialize
  | SendRawTransaction
  | GetParsedAccountInfo string
  | GetParsedTokenAccountsByMint string
  | GetParsedTokenAccountsByProgram
  | GetBalance

datatype error =
    AllEndpointsFailed
  | MarketNotFound
  | InvalidMarketAddress
  | OrderInstructionFailed
  | BNAssertion
  | Rejected call

text \<open>
  \<^verbatim>\<open>BN.toNumber()\<close> returns the value when it fits 53 bits and fails its assertion
  otherwise; the value is then an exactly representable number.
\<close>

definition toNumber :: "int \<Rightarrow> error + jsnum" where
  "toNumber x = (if \<bar>x\<bar> < 2 ^ 53 then Inr (Num (of_int x)) else Inl BNAssertion)"

text \<open>
  \<^verbatim>\<open>new BN(number)\<close>: the constructor reads \<^verbatim>\<open>number || 0\<close>, so NaN becomes zero;
  it asserts \<^verbatim>\<open>number < 0x20000000000000\<close> on the magnitude and keeps the integer part.
\<close>

definition js_trunc :: "rat \<Rightarrow> int" where
  "js_trunc a = (if 0 \<le> a then \<lfloor>a\<rfloor> else \<lceil>a\<rceil>)"

fun newBN :: "jsnum \<Rightarrow> error + int" where
  "newBN NaN = Inr 0"
| "newBN (Num a) = (if \<bar>a\<bar> < 2 ^ 53 then Inr (js_trunc a) else Inl BNAssertion)"
| "newBN PosInf = Inl BNAssertion"
| "newBN NegInf = Inl BNAssertion"

text \<open>Sequencing of computations that may throw.\<close>

definition bindE :: "error + 'a \<Rightarrow> ('a \<Rightarrow> error + 'b) \<Rightarrow> error + 'b" where
  "bindE m f = (case m of Inl e \<Rightarrow> Inl e | Inr x \<Rightarrow> f x)"

section \<open>The order parameter calculator\<close>

text \<open>
  Lines 127 to 179 of \<^verbatim>\<open>createOpenBookV2OrderInstruction\<close> in \<^verbatim>\<open>src/lib/mint.ts\<close>.
  The market account carries the two lot sizes, the order request the price and the
  size, all four as big numbers.
\<close>

record Market =
  baseLotSize :: int
  quoteLotSize :: int

record OrderParams =
  price_param :: int
  size_param :: int

datatype Side = Bid | Ask

record PlaceOrderArgs =
  side :: Side
  priceLots :: int
  maxBaseLots :: int
  maxQuoteLotsIncludingFees :: int
  clientOrderId :: int
  expiryTimestamp :: int
  limit :: int

text \<open>
  \<^verbatim>\<open>(priceInMicroUnits * market.quoteLotSize.toNumber()) /
    (market.baseLotSize.toNumber() * 1000000)\<close>
\<close>

definition priceLotsCalculation :: "jsnum \<Rightarrow> jsnum \<Rightarrow> jsnum \<Rightarrow> jsnum" where
  "priceLotsCalculation priceInMicroUnits quoteLot baseLot =
     js_div (js_mul priceInMicroUnits quoteLot) (js_mul baseLot (Num 1000000))"

text \<open>\<^verbatim>\<open>new BN(Math.max(1, Math.floor(priceLotsCalculation)))\<close>\<close>

definition priceLots_of :: "jsnum \<Rightarrow> jsnum \<Rightarrow> jsnum \<Rightarrow> error + int" where
  "priceLots_of priceInMicroUnits quoteLot baseLot =
     newBN (Math_max (Num 1) (Math_floor (priceLotsCalculation priceInMicroUnits quoteLot baseLot)))"

text \<open>\<^verbatim>\<open>new BN(Math.floor(sizeInMicroUnits / market.baseLotSize.toNumber()))\<close>\<close>

definition maxBaseLots_of :: "jsnum \<Rightarrow> jsnum \<Rightarrow> error + int" where
  "maxBaseLots_of sizeInMicroUnits baseLot = newBN (Math_floor (js_div sizeInMicroUnits baseLot))"

text \<open>\<^verbatim>\<open>(priceInMicroUnits * sizeInMicroUnits * 1.1) / 1000000\<close>\<close>

definition totalQuoteNeeded :: "jsnum \<Rightarrow> jsnum \<Rightarrow> jsnum" where
  "totalQuoteNeeded priceInMicroUnits sizeInMicroUnits =
     js_div (js_mul (js_mul priceInMicroUnits sizeInMicroUnits) (js_literal (11 / 10))) (Num 1000000)"

text \<open>\<^verbatim>\<open>new BN(Math.floor(totalQuoteNeeded / market.quoteLotSize.toNumber()))\<close>\<close>

definition maxQuoteLots_of :: "jsnum \<Rightarrow> jsnum \<Rightarrow> jsnum \<Rightarrow> error + int" where
  "maxQuoteLots_of priceInMicroUnits sizeInMicroUnits quoteLot =
     newBN (Math_floor (js_div (totalQuoteNeeded priceInMicroUnits sizeInMicroUnits) quoteLot))"

text \<open>
  The whole calculation, in the order the source evaluates it; \<open>now\<close> is the reading of
  \<^verbatim>\<open>Date.now()\<close> that becomes the client order id.
\<close>

definition computeOrderArgs :: "int \<Rightarrow> OrderParams \<Rightarrow> Market \<Rightarrow> error + PlaceOrderArgs" where
  "computeOrderArgs now orderParams market =
     bindE (toNumber (price_param orderParams)) (\<lambda>priceInMicroUnits.
     bindE (toNumber (size_param orderParams)) (\<lambda>sizeInMicroUnits.
     bindE (toNumber (quoteLotSize market)) (\<lambda>quoteLot.
     bindE (toNumber (baseLotSize market)) (\<lambda>baseLot.
     bindE (priceLots_of priceInMicroUnits quoteLot baseLot) (\<lambda>pl.
     bindE (maxBaseLots_of sizeInMicroUnits baseLot) (\<lambda>mb.
     bindE (maxQuoteLots_of priceInMicroUnits sizeInMicroUnits quoteLot) (\<lambda>mq.
     Inr \<lparr>side = Ask, priceLots = pl, maxBaseLots = mb, maxQuoteLotsIncludingFees = mq,
          clientOrderId = now, expiryTimestamp = 18446744073709551615, limit = 10\<rparr>)))))))"

subsection \<open>The calculator as the specification words it\<close>

text \<open>
  The specification gives the price in lots as the floor of the price per unit in the
  smallest quote denomination times the quote lot size over the base lot size, clamped
  to 1, and the maximal quote lots as the floor of price times quantity times the safety
  margin 1.10 over the quote lot size, price and quantity in smallest-denomination
  units.  Both are written here in exact arithmetic, to be compared with the code.
\<close>

definition spec_priceLots :: "int \<Rightarrow> int \<Rightarrow> int \<Rightarrow> int" where
  "spec_priceLots p quoteLot baseLot =
     max 1 \<lfloor>(of_int p :: rat) * of_int quoteLot / of_int baseLot\<rfloor>"

definition spec_maxQuoteLots :: "int \<Rightarrow> int \<Rightarrow> int \<Rightarrow> int" where
  "spec_maxQuoteLots p s quoteLot =
     \<lfloor>(of_int p :: rat) * of_int s * (11 / 10) / of_int quoteLot\<rfloor>"

text \<open>
  The invariant of the order instruction parameters: no integer field is negative, and
  the price and the quantity in base lots, which a zero would make unfillable (an order
  at no price, an order for nothing), are at least 1.
\<close>

definition order_args_invariant :: "PlaceOrderArgs \<Rightarrow> bool" where
  "order_args_invariant a =
     (1 \<le> priceLots a \<and> 1 \<le> maxBaseLots a \<and> 0 \<le> maxQuoteLotsIncludingFees a)"

text \<open>Numbers that are not negative; NaN, which the constructor reads as zero, counts.\<close>

fun nonneg_js :: "jsnum \<Rightarrow> bool" where
  "nonneg_js (Num a) = (0 \<le> a)"
| "nonneg_js PosInf = True"
| "nonneg_js NaN = True"
| "nonneg_js NegInf = False"

section \<open>Effects: external calls and their trace\<close>

text \<open>
  An asynchronous function of the source is a computation that extends the list of the
  external calls made so far and either returns a value or throws.  \<open>perform c r\<close> is
  the call \<open>c\<close> whose outcome \<open>r\<close> the environment decides: \<open>None\<close> when the
  call throws or its promise rejects.  The call is recorded whether it succeeds or not.
\<close>

type_synonym 'a io = "call list \<Rightarrow> (error + 'a) \<times> call list"

definition ret :: "'a \<Rightarrow> 'a io" where
  "ret x = (\<lambda>tr. (Inr x, tr))"

definition throw :: "error \<Rightarrow> 'a io" where
  "throw e = (\<lambda>tr. (Inl e, tr))"

definition lift :: "error + 'a \<Rightarrow> 'a io" where
  "lift r = (\<lambda>tr. (r, tr))"

definition bind_io :: "'a io \<Rightarrow> ('a \<Rightarrow> 'b io) \<Rightarrow> 'b io" where
  "bind_io m f = (\<lambda>tr. case m tr of (Inl e, tr') \<Rightarrow> (Inl e, tr') | (Inr x, tr') \<Rightarrow> f x tr')"

definition try_catch :: "'a io \<Rightarrow> (error \<Rightarrow> 'a io) \<Rightarrow> 'a io" where
  "try_catch m h = (\<lambda>tr. case m tr of (Inl e, tr') \<Rightarrow> h e tr' | (Inr x, tr') \<Rightarrow> (Inr x, tr'))"

definition perform :: "call \<Rightarrow> 'a option \<Rightarrow> 'a io" where
  "perform c r = (\<lambda>tr. (case r of None \<Rightarrow> Inl (Rejected c) | Some x \<Rightarrow> Inr x, tr @ [c]))"

definition okay :: "bool \<Rightarrow> unit option" where
  "okay b = (if b then Some () else None)"

text \<open>
  What the wallet, the RPC endpoints and the exchange client answer.  The two selections
  of a connection and the two requests of a blockhash that one operation can make are
  told apart by their index.  A fetched market is \<open>None\<close> when the client returns no
  account.
\<close>

record ParsedTokenAccount =
  uiAmount :: "rat option"
  tokenAmount_decimals :: nat

record world =
  getSlot_ok :: "nat \<Rightarrow> string \<Rightarrow> bool"
  getAccountInfo_ok :: bool
  newClient_ok :: bool
  market_fetch :: "Market option option"
  createOpenOrdersIx_ok :: bool
  getAssociatedTokenAddress_ok :: bool
  placeOrderIx_ok :: "PlaceOrderArgs \<Rightarrow> bool"
  getLatestBlockhash_ok :: "nat \<Rightarrow> bool"
  simulateTransaction_ok :: bool
  signTransaction_ok :: bool
  serialize_ok :: bool
  sendRawTransaction_result :: "string option"
  date_now :: int
  getParsedAccountInfo_ok :: "string \<Rightarrow> bool"
  tokenAccountsByMint :: "string \<Rightarrow> ParsedTokenAccount list option"
  tokenAccountsByProgram :: "ParsedTokenAccount list option"
  getBalance_result :: "int option"

section \<open>The connection selector\<close>

text \<open>
  \<^verbatim>\<open>getWorkingConnection\<close> (\<^verbatim>\<open>src/lib/mint.ts\<close>, lines 42 to 68, and the same
  function in \<^verbatim>\<open>src/components/TokenBalances.tsx\<close>): a loop over the endpoints with
  a \<^verbatim>\<open>try\<close> around the construction of the connection and its \<^verbatim>\<open>getSlot()\<close>;
  the \<^verbatim>\<open>catch\<close> continues with the next endpoint.  A connection is identified with
  its endpoint.
\<close>

definition endpoints :: "string list" where
  "endpoints = [''https://api.devnet.solana.com'', ''https://solana-devnet.rpc.extrnode.com'',
                ''https://ssc-dao.genesysgo.net'']"

fun probe :: "(string \<Rightarrow> bool) \<Rightarrow> string list \<Rightarrow> string io" where
  "probe ok [] = throw AllEndpointsFailed"
| "probe ok (endpoint # rest) =
     try_catch (perform (GetSlot endpoint) (if ok endpoint then Some endpoint else None))
       (\<lambda>e. probe ok rest)"

definition getWorkingConnection :: "(string \<Rightarrow> bool) \<Rightarrow> string io" where
  "getWorkingConnection ok = probe ok endpoints"

section \<open>The order submitter\<close>

text \<open>
  \<^verbatim>\<open>createOpenBookV2OrderInstruction\<close> (\<^verbatim>\<open>src/lib/mint.ts\<close>, lines 71 to 225).
  The body of its \<^verbatim>\<open>try\<close> block first, in the order of the source: the client, the
  market, the open-orders instructions, the check of the market, the order arguments,
  the token account, the order instruction, the blockhash, the simulation, the signature,
  the serialisation and the broadcast, which returns the transaction hash.
\<close>

record OrderResult =
  success :: bool
  orderId :: "string option"
  failure :: "error option"

definition createOrder_try :: "world \<Rightarrow> OrderParams \<Rightarrow> string io" where
  "createOrder_try w orderParams =
     bind_io (perform NewClient (okay (newClient_ok w))) (\<lambda>client.
     bind_io (perform MarketFetch (market_fetch w)) (\<lambda>market.
     bind_io (perform CreateOpenOrdersIx (okay (createOpenOrdersIx_ok w))) (\<lambda>openOrders.
     bind_io (case market of None \<Rightarrow> throw MarketNotFound | Some m \<Rightarrow> ret m) (\<lambda>m.
     bind_io (lift (computeOrderArgs (date_now w) orderParams m)) (\<lambda>orderArgs.
     bind_io (perform GetAssociatedTokenAddress (okay (getAssociatedTokenAddress_ok w))) (\<lambda>account.
     bind_io (perform PlaceOrderIx (okay (placeOrderIx_ok w orderArgs))) (\<lambda>ix.
     bind_io (perform GetLatestBlockhash (okay (getLatestBlockhash_ok w 0))) (\<lambda>recentBlockhash.
     bind_io (perform SimulateTransaction (okay (simulateTransaction_ok w))) (\<lambda>simulation.
     bind_io (perform SignTransaction (okay (signTransaction_ok w))) (\<lambda>signedTx.
     bind_io (perform Serialize (okay (serialize_ok w))) (\<lambda>raw.
     perform SendRawTransaction (sendRawTransaction_result w))))))))))))"

definition createOpenBookV2OrderInstruction :: "world \<Rightarrow> OrderParams \<Rightarrow> OrderResult io" where
  "createOpenBookV2OrderInstruction w orderParams =
     try_catch
       (bind_io (createOrder_try w orderParams) (\<lambda>txHash.
          ret \<lparr>success = True, orderId = Some txHash, failure = None\<rparr>))
       (\<lambda>e. ret \<lparr>success = False, orderId = None, failure = Some e\<rparr>)"

text \<open>
  \<^verbatim>\<open>mintIrmaToken\<close> (lines 227 to 342).  The order request is built from the
  \<^verbatim>\<open>amount\<close>: \<^verbatim>\<open>usdcAmount = amount * 1.04\<close>,
  \<^verbatim>\<open>pricePerToken = usdcAmount / amount\<close>, and the two big numbers
  \<^verbatim>\<open>new BN(Math.floor(pricePerToken * 1000000))\<close> and
  \<^verbatim>\<open>new BN(Math.floor(amount * 1000000))\<close>.
\<close>

definition orderParams_of :: "jsnum \<Rightarrow> error + OrderParams" where
  "orderParams_of amount =
     (let usdcAmount = js_mul amount (js_literal (26 / 25));
          pricePerToken = js_div usdcAmount amount
      in bindE (newBN (Math_floor (js_mul pricePerToken (Num 1000000)))) (\<lambda>p.
         bindE (newBN (Math_floor (js_mul amount (Num 1000000)))) (\<lambda>s.
         Inr \<lparr>price_param = p, size_param = s\<rparr>)))"

definition mintIrmaToken_try :: "world \<Rightarrow> jsnum \<Rightarrow> bool io" where
  "mintIrmaToken_try w amount =
     bind_io (perform Throttle (Some ())) (\<lambda>throttled.
     bind_io (getWorkingConnection (getSlot_ok w 0)) (\<lambda>connection.
     bind_io (try_catch (perform GetAccountInfo (okay (getAccountInfo_ok w)))
                (\<lambda>e. throw InvalidMarketAddress)) (\<lambda>marketInfo.
     bind_io (lift (orderParams_of amount)) (\<lambda>orderParams.
     bind_io (createOpenBookV2OrderInstruction w orderParams) (\<lambda>orderResult.
     bind_io (if \<not> success orderResult then throw OrderInstructionFailed else ret ()) (\<lambda>checked.
     bind_io (perform GetLatestBlockhash (okay (getLatestBlockhash_ok w 1))) (\<lambda>blockhash.
     ret True)))))))"

definition mintIrmaToken :: "world \<Rightarrow> jsnum \<Rightarrow> bool io" where
  "mintIrmaToken w amount = try_catch (mintIrmaToken_try w amount) (\<lambda>e. ret False)"

text \<open>
  What has to go well before the broadcast is requested, in
  \<^verbatim>\<open>createOpenBookV2OrderInstruction\<close> and in \<^verbatim>\<open>mintIrmaToken\<close>.
\<close>

definition pre_broadcast_ok :: "world \<Rightarrow> OrderParams \<Rightarrow> bool" where
  "pre_broadcast_ok w orderParams =
     (newClient_ok w \<and> createOpenOrdersIx_ok w \<and>
      (case market_fetch w of
         Some (Some m) \<Rightarrow>
           (case computeOrderArgs (date_now w) orderParams m of
              Inr orderArgs \<Rightarrow>
                getAssociatedTokenAddress_ok w \<and> placeOrderIx_ok w orderArgs \<and>
                getLatestBlockhash_ok w 0 \<and> simulateTransaction_ok w \<and>
                signTransaction_ok w \<and> serialize_ok w
            | Inl e \<Rightarrow> False)
       | Some None \<Rightarrow> False
       | None \<Rightarrow> False))"

definition mint_pre_broadcast_ok :: "world \<Rightarrow> jsnum \<Rightarrow> bool" where
  "mint_pre_broadcast_ok w amount =
     (find (getSlot_ok w 0) endpoints \<noteq> None \<and> getAccountInfo_ok w \<and>
      (case orderParams_of amount of
         Inr orderParams \<Rightarrow> pre_broadcast_ok w orderParams
       | Inl e \<Rightarrow> False))"

section \<open>The order status\<close>

text \<open>\<^verbatim>\<open>getOrderStatus\<close> (lines 382 to 407): a log line and a literal, in a \<^verbatim>\<open>try\<close>.\<close>

datatype Status = Pending | Filled | Cancelled | ErrorStatus

record OrderStatus =
  status :: Status
  filledAmount :: jsnum
  remainingAmount :: jsnum
  price :: jsnum

definition getOrderStatus :: "string \<Rightarrow> OrderStatus option io" where
  "getOrderStatus order_id =
     try_catch
       (ret (Some \<lparr>status = Pending, filledAmount = Num 0, remainingAmount = Num 0,
                   price = js_literal (26 / 25)\<rparr>))
       (\<lambda>e. ret (Some \<lparr>status = ErrorStatus, filledAmount = Num 0, remainingAmount = Num 0,
                        price = js_literal (26 / 25)\<rparr>))"

section \<open>The balance reader\<close>

text \<open>
  \<^verbatim>\<open>fetchTokenBalances\<close> (\<^verbatim>\<open>src/components/TokenBalances.tsx\<close>, lines 118 to 269).
  A tracked token is its mint address and its symbol.  The state of the component that
  the function writes is the list of balances and the error message; the callback
  \<^verbatim>\<open>onBalanceUpdate\<close> is the state setter of the form and does not throw.
\<close>

record TokenBalance =
  mint :: string
  symbol :: string
  balance :: jsnum
  decimals :: nat
  mintAddress :: string

record BalancesState =
  tokenBalances :: "TokenBalance list"
  error_message :: "string option"

definition TOKENS :: "(string \<times> string) list" where
  "TOKENS = [(''BGySzmvQrR69thSD5iVhhBrQ1CLnFYKakszRFuzwb1yj'', ''IRMA''),
             (''7zSzGfA7r8cxhGPyJUX2CJzViLS9FX7a2b3F94qcZLkU'', ''USDC'')]"

text \<open>
  The body of the loop over \<^verbatim>\<open>TOKENS\<close>: throttle, look the mint up (a failure is
  logged only), ask for the wallet's accounts of the mint, and read the first one;
  \<^verbatim>\<open>uiAmount || 0\<close> and \<^verbatim>\<open>decimals || 6\<close> replace a missing amount and a zero
  precision.  Any failure gives the record with balance 0 and 6 decimals.
\<close>

definition zeroBalance :: "string \<times> string \<Rightarrow> TokenBalance" where
  "zeroBalance token =
     \<lparr>mint = snd token, symbol = snd token, balance = Num 0, decimals = 6, mintAddress = fst token\<rparr>"

definition fetchOne :: "world \<Rightarrow> string \<times> string \<Rightarrow> TokenBalance io" where
  "fetchOne w token =
     try_catch
       (bind_io (perform Throttle (Some ())) (\<lambda>throttled.
        bind_io (try_catch (perform (GetParsedAccountInfo (fst token))
                              (okay (getParsedAccountInfo_ok w (fst token))))
                   (\<lambda>mintError. ret ())) (\<lambda>mintInfo.
        bind_io (perform (GetParsedTokenAccountsByMint (fst token))
                   (tokenAccountsByMint w (fst token))) (\<lambda>tokenAccounts.
        ret (case tokenAccounts of
               [] \<Rightarrow> zeroBalance token
             | account # others \<Rightarrow>
                 \<lparr>mint = snd token, symbol = snd token,
                  balance = (case uiAmount account of None \<Rightarrow> Num 0 | Some a \<Rightarrow> Num a),
                  decimals = (if tokenAmount_decimals account = 0 then 6
                              else tokenAmount_decimals account),
                  mintAddress = fst token\<rparr>)))))
       (\<lambda>e. ret (zeroBalance token))"

fun fetchAll :: "world \<Rightarrow> (string \<times> string) list \<Rightarrow> TokenBalance list \<Rightarrow> TokenBalance list io" where
  "fetchAll w [] balances = ret balances"
| "fetchAll w (token # rest) balances =
     bind_io (fetchOne w token) (\<lambda>b. fetchAll w rest (balances @ [b]))"

text \<open>The scan of all token accounts of the wallet, whose result is logged only.\<close>

definition scanAll :: "world \<Rightarrow> unit io" where
  "scanAll w =
     try_catch (bind_io (perform GetParsedTokenAccountsByProgram (tokenAccountsByProgram w))
                  (\<lambda>allTokenAccounts. ret ()))
       (\<lambda>fallbackError. ret ())"

definition solFallback :: "world \<Rightarrow> BalancesState \<Rightarrow> BalancesState io" where
  "solFallback w st =
     try_catch
       (bind_io (getWorkingConnection (getSlot_ok w 1)) (\<lambda>connection.
        bind_io (perform GetBalance (getBalance_result w)) (\<lambda>solBalance.
        ret \<lparr>tokenBalances =
               [\<lparr>mint = ''SOL'', symbol = ''SOL'',
                 balance = js_div (Num (of_int solBalance)) (Num 1000000000),
                 decimals = 9, mintAddress = ''Native SOL''\<rparr>],
             error_message = Some ''Token fetching failed, showing SOL balance only''\<rparr>)))
       (\<lambda>fallbackError.
          ret (st\<lparr>error_message :=
                     Some ''Failed to fetch any balances. Please check your connection.''\<rparr>))"

definition fetchTokenBalances :: "world \<Rightarrow> bool \<Rightarrow> BalancesState \<Rightarrow> BalancesState io" where
  "fetchTokenBalances w hasPublicKey st =
     (if \<not> hasPublicKey then ret st
      else try_catch
             (bind_io (getWorkingConnection (getSlot_ok w 0)) (\<lambda>connection.
              bind_io (fetchAll w TOKENS []) (\<lambda>balances.
              bind_io (if list_all (\<lambda>b. balance b = Num 0) balances then scanAll w else ret ())
                (\<lambda>scanned.
              ret \<lparr>tokenBalances = balances, error_message = None\<rparr>))))
             (\<lambda>e. solFallback w (st\<lparr>error_message := None\<rparr>)))"

section \<open>The rate limiter\<close>

text \<open>
  \<^verbatim>\<open>RateLimiter.throttle\<close> (\<^verbatim>\<open>src/lib/mint.ts\<close>, lines 23 to 37).  The readings of
  \<^verbatim>\<open>Date.now()\<close> are inputs from the environment, taken in the order in which the one
  thread of the event loop asks for them.  A call reads the clock, and either goes on to
  line 35 in the same run, or is suspended at the \<^verbatim>\<open>await\<close> with the delay it gave to
  \<^verbatim>\<open>setTimeout\<close> until its timer resumes it; line 35 reads the clock again and stores
  the reading, and the call returns.
\<close>

definition RATE_LIMIT_DELAY :: int where
  "RATE_LIMIT_DELAY = 1000"

record throttle_call =
  call_id :: nat
  entered :: int
  waitTime :: int

record RateLimiter =
  lastRequestTime :: int
  clock :: "int list"
  suspended :: "throttle_call list"
  returned :: "(throttle_call \<times> int) list"

datatype throttle_event = Call nat | Timer nat

text \<open>
  One turn of the event loop.  \<open>Call i\<close> is the call number \<open>i\<close> of
  \<^verbatim>\<open>throttle\<close>: \<^verbatim>\<open>now = Date.now()\<close>,
  \<^verbatim>\<open>timeSinceLastRequest = now - this.lastRequestTime\<close>, and when this is below
  \<^verbatim>\<open>RATE_LIMIT_DELAY\<close> the call is suspended with
  \<^verbatim>\<open>waitTime = RATE_LIMIT_DELAY - timeSinceLastRequest\<close>; otherwise
  \<^verbatim>\<open>this.lastRequestTime = Date.now()\<close> follows at once.  \<open>Timer i\<close> is the timer of
  the suspended call \<open>i\<close> resuming it at that last line.  \<open>None\<close> is a schedule
  that cannot happen: a timer for a call that is not suspended, or no reading left.
\<close>

fun throttle_step :: "throttle_event \<Rightarrow> RateLimiter \<Rightarrow> RateLimiter option" where
  "throttle_step (Call i) rl =
     (case clock rl of
        [] \<Rightarrow> None
      | now # readings \<Rightarrow>
          (let timeSinceLastRequest = now - lastRequestTime rl
           in if timeSinceLastRequest < RATE_LIMIT_DELAY
              then Some (rl\<lparr>clock := readings,
                            suspended := suspended rl @
                              [\<lparr>call_id = i, entered = now,
                                waitTime = RATE_LIMIT_DELAY - timeSinceLastRequest\<rparr>]\<rparr>)
              else (case readings of
                      [] \<Rightarrow> None
                    | t # later \<Rightarrow>
                        Some (rl\<lparr>lastRequestTime := t, clock := later,
                                 returned := returned rl @
                                   [(\<lparr>call_id = i, entered = now, waitTime = 0\<rparr>, t)]\<rparr>))))"
| "throttle_step (Timer i) rl =
     (case find (\<lambda>c. call_id c = i) (suspended rl) of
        None \<Rightarrow> None
      | Some c \<Rightarrow>
          (case clock rl of
             [] \<Rightarrow> None
           | t # later \<Rightarrow>
               Some (rl\<lparr>lastRequestTime := t, clock := later,
                        suspended := remove1 c (suspended rl),
                        returned := returned rl @ [(c, t)]\<rparr>)))"

fun throttle_run :: "throttle_event list \<Rightarrow> RateLimiter \<Rightarrow> RateLimiter option" where
  "throttle_run [] rl = Some rl"
| "throttle_run (e # es) rl =
     (case throttle_step e rl of None \<Rightarrow> None | Some rl' \<Rightarrow> throttle_run es rl')"

text \<open>The limiter as constructed, with the readings the clock is going to give.\<close>

definition newRateLimiter :: "int list \<Rightarrow> RateLimiter" where
  "newRateLimiter readings = \<lparr>lastRequestTime = 0, clock = readings, suspended = [], returned = []\<rparr>"

text \<open>
  The environment's part: a call returns no earlier, on the clock that \<^verbatim>\<open>Date.now()\<close>
  reads, than its delay after it entered.  For a suspended call this is the contract of
  \<^verbatim>\<open>setTimeout\<close>; for a call that does not wait, that the clock does not run backwards.
\<close>

definition on_time :: "throttle_call \<times> int \<Rightarrow> bool" where
  "on_time r = (entered (fst r) + waitTime (fst r) \<le> snd r)"

text \<open>One call at a time: no call is made while another is suspended.\<close>

fun one_at_a_time :: "throttle_event list \<Rightarrow> RateLimiter \<Rightarrow> bool" where
  "one_at_a_time [] rl = True"
| "one_at_a_time (e # es) rl =
     ((case e of Call i \<Rightarrow> suspended rl = [] | Timer i \<Rightarrow> True) \<and>
      (case throttle_step e rl of None \<Rightarrow> True | Some rl' \<Rightarrow> one_at_a_time es rl'))"

text \<open>
  The guarantee of the specification on the readings at which the calls returned, in the
  order of their returns: any two are at least the fixed interval apart.
\<close>

definition separated :: "int list \<Rightarrow> bool" where
  "separated ts = sorted_wrt (\<lambda>a b. a + RATE_LIMIT_DELAY \<le> b) ts"

text \<open>
  What one-at-a-time use keeps true: the returns so far are separated and none is later
  than the stored reading, and a suspended call is alone and due exactly the fixed
  interval after the stored reading.
\<close>

definition throttle_inv :: "RateLimiter \<Rightarrow> bool" where
  "throttle_inv rl =
     (separated (map snd (returned rl)) \<and>
      list_all (\<lambda>r. snd r \<le> lastRequestTime rl) (returned rl) \<and>
      (case suspended rl of
         [] \<Rightarrow> True
       | c # cs \<Rightarrow> cs = [] \<and> entered c + waitTime c = lastRequestTime rl + RATE_LIMIT_DELAY))"

section \<open>An example environment\<close>

text \<open>
  The first endpoint does not answer and the other two do; the market has base lot size 7
  and quote lot size 1; the wallet has no account of any tracked token, the lookup of a
  mint and the scan of all token accounts fail, and every other call succeeds.
\<close>

definition example_world :: world where
  "example_world =
     \<lparr>getSlot_ok = (\<lambda>k endpoint. endpoint \<noteq> ''https://api.devnet.solana.com''),
      getAccountInfo_ok = True,
      newClient_ok = True,
      market_fetch = Some (Some \<lparr>baseLotSize = 7, quoteLotSize = 1\<rparr>),
      createOpenOrdersIx_ok = True,
      getAssociatedTokenAddress_ok = True,
      placeOrderIx_ok = (\<lambda>orderArgs. True),
      getLatestBlockhash_ok = (\<lambda>k. True),
      simulateTransaction_ok = True,
      signTransaction_ok = True,
      serialize_ok = True,
      sendRawTransaction_result = Some ''txhash'',
      date_now = 1700000000000,
      getParsedAccountInfo_ok = (\<lambda>m. False),
      tokenAccountsByMint = (\<lambda>m. Some []),
      tokenAccountsByProgram = None,
      getBalance_result = Some 2000000000\<rparr>"

section \<open>Properties of the rounding\<close>

lemma pow2_le_of_int: "(2::int) ^ k \<le> m \<Longrightarrow> (2::rat) ^ k \<le> of_int m"
proof -
  assume "(2::int) ^ k \<le> m"
  then have "(of_int ((2::int) ^ k) :: rat) \<le> of_int m" by (simp only: of_int_le_iff)
  then show ?thesis by simp
qed

lemma of_int_le_pow2: "m \<le> (2::int) ^ k \<Longrightarrow> (of_int m :: rat) \<le> 2 ^ k"
proof -
  assume "m \<le> (2::int) ^ k"
  then have "(of_int m :: rat) \<le> of_int ((2::int) ^ k)" by (simp only: of_int_le_iff)
  then show ?thesis by simp
qed

lemma ilog2_lower:
  assumes "0 < x"
  shows "power_int 2 (ilog2 x) \<le> x"
proof (cases "1 \<le> x")
  case True
  define n where "n = \<lfloor>x\<rfloor>"
  have n1: "1 \<le> n" using True by (simp add: n_def)
  then have bl: "1 \<le> bitlen n" by (simp add: bitlen_alt_def)
  have "(2::int) ^ nat (bitlen n - 1) \<le> n" using bitlen_bounds[of n] n1 by simp
  then have "(2::rat) ^ nat (bitlen n - 1) \<le> of_int n" by (rule pow2_le_of_int)
  also have "\<dots> \<le> x" by (simp add: n_def)
  finally have "(2::rat) ^ nat (bitlen n - 1) \<le> x" .
  moreover have "power_int (2::rat) (bitlen n - 1) = 2 ^ nat (bitlen n - 1)"
    using bl by (simp add: power_int_nonneg_exp)
  ultimately show ?thesis using True by (simp add: ilog2_def n_def)
next
  case False
  define y where "y = 1 / x"
  define m where "m = \<lceil>y\<rceil> - 1"
  have y1: "1 < y" using False assms by (simp add: y_def)
  have m1: "1 \<le> m" using y1 unfolding m_def by (simp add: less_ceiling_iff)
  have "m < 2 ^ nat (bitlen m)" using bitlen_bounds[of m] m1 by simp
  then have "\<lceil>y\<rceil> \<le> 2 ^ nat (bitlen m)" by (simp add: m_def)
  then have "(of_int \<lceil>y\<rceil> :: rat) \<le> 2 ^ nat (bitlen m)" by (rule of_int_le_pow2)
  moreover have "y \<le> of_int \<lceil>y\<rceil>" by linarith
  ultimately have yle: "y \<le> 2 ^ nat (bitlen m)" by linarith
  have "1 / (2::rat) ^ nat (bitlen m) \<le> 1 / y"
    using yle y1 by (intro divide_left_mono) auto
  then have "1 / (2::rat) ^ nat (bitlen m) \<le> x" using assms by (simp add: y_def)
  moreover have "power_int (2::rat) (- bitlen m) = 1 / 2 ^ nat (bitlen m)"
    using bitlen_nonneg[of m] by (simp add: power_int_minus_divide power_int_nonneg_exp)
  ultimately show ?thesis using False by (simp add: ilog2_def m_def y_def)
qed

lemma ilog2_upper:
  assumes "0 < x"
  shows "x < power_int 2 (ilog2 x + 1)"
proof (cases "1 \<le> x")
  case True
  define n where "n = \<lfloor>x\<rfloor>"
  have n1: "1 \<le> n" using True by (simp add: n_def)
  have "n < 2 ^ nat (bitlen n)" using bitlen_bounds[of n] n1 by simp
  then have "n + 1 \<le> 2 ^ nat (bitlen n)" by simp
  then have "(of_int (n + 1) :: rat) \<le> 2 ^ nat (bitlen n)" by (rule of_int_le_pow2)
  moreover have "x < of_int (n + 1)" unfolding n_def by linarith
  ultimately have "x < 2 ^ nat (bitlen n)" by linarith
  moreover have "power_int (2::rat) (bitlen n) = 2 ^ nat (bitlen n)"
    using bitlen_nonneg[of n] by (simp add: power_int_nonneg_exp)
  ultimately show ?thesis using True by (simp add: ilog2_def n_def)
next
  case False
  define y where "y = 1 / x"
  define m where "m = \<lceil>y\<rceil> - 1"
  have y1: "1 < y" using False assms by (simp add: y_def)
  have m1: "1 \<le> m" using y1 unfolding m_def by (simp add: less_ceiling_iff)
  then have bl: "1 \<le> bitlen m" by (simp add: bitlen_alt_def)
  have "(2::int) ^ nat (bitlen m - 1) \<le> m" using bitlen_bounds[of m] m1 by simp
  then have "(2::rat) ^ nat (bitlen m - 1) \<le> of_int m" by (rule pow2_le_of_int)
  moreover have "of_int m < y" unfolding m_def by linarith
  ultimately have lt: "(2::rat) ^ nat (bitlen m - 1) < y" by linarith
  have "1 / y < 1 / (2::rat) ^ nat (bitlen m - 1)"
    using lt y1 by (intro divide_strict_left_mono) (auto intro: mult_pos_pos)
  then have "x < 1 / (2::rat) ^ nat (bitlen m - 1)" using assms by (simp add: y_def)
  moreover have "power_int (2::rat) (- bitlen m + 1) = 1 / 2 ^ nat (bitlen m - 1)"
  proof -
    have "- bitlen m + 1 = - (bitlen m - 1)" by simp
    then show ?thesis using bl by (simp only: power_int_minus_divide power_int_nonneg_exp)
  qed
  ultimately show ?thesis using False by (simp add: ilog2_def m_def y_def)
qed

lemma ilog2_ge:
  assumes "power_int 2 k \<le> x"
  shows "k \<le> ilog2 x"
proof (rule ccontr)
  assume "\<not> k \<le> ilog2 x"
  then have "ilog2 x + 1 \<le> k" by simp
  then have "power_int (2::rat) (ilog2 x + 1) \<le> power_int 2 k"
    by (intro power_int_increasing) auto
  moreover have "0 < x" using assms zero_less_power_int[of "2::rat" k] by linarith
  ultimately show False using ilog2_upper[of x] assms by linarith
qed

lemma ilog2_less:
  assumes "0 < x" "x < power_int 2 k"
  shows "ilog2 x < k"
proof (rule ccontr)
  assume "\<not> ilog2 x < k"
  then have "power_int (2::rat) k \<le> power_int 2 (ilog2 x)"
    by (intro power_int_increasing) auto
  then show False using ilog2_lower[OF assms(1)] assms(2) by linarith
qed

lemma round_half_even_err: "\<bar>of_int (round_half_even y) - y\<bar> \<le> 1 / 2"
proof -
  have "of_int \<lfloor>y\<rfloor> \<le> y" "y < of_int \<lfloor>y\<rfloor> + 1" by linarith+
  then show ?thesis by (auto simp: round_half_even_def Let_def)
qed

lemma round_half_even_of_int: "round_half_even (of_int k) = k"
  by (simp add: round_half_even_def)

lemma round_half_even_nonneg: "0 \<le> y \<Longrightarrow> 0 \<le> round_half_even y"
  by (auto simp: round_half_even_def Let_def)

lemma round_half_even_nonpos:
  assumes "y \<le> 0"
  shows "round_half_even y \<le> 0"
proof (cases "y = 0")
  case True
  then show ?thesis using round_half_even_of_int[of 0] by simp
next
  case False
  then have "y < 0" using assms by simp
  then have "\<lfloor>y\<rfloor> \<le> - 1" by (simp add: floor_le_iff)
  then show ?thesis by (auto simp: round_half_even_def Let_def)
qed

lemma rnd_unfold:
  assumes "x \<noteq> 0"
  shows "rnd x = of_int (round_half_even (x / power_int 2 (max (ilog2 \<bar>x\<bar>) (- 1022) - 52)))
                 * power_int 2 (max (ilog2 \<bar>x\<bar>) (- 1022) - 52)"
  using assms by (simp add: rnd_def Let_def)

lemma rnd_ulp_err:
  assumes "x \<noteq> 0"
  shows "\<bar>rnd x - x\<bar> \<le> power_int 2 (max (ilog2 \<bar>x\<bar>) (- 1022) - 52) / 2"
proof -
  define u :: rat where "u = power_int 2 (max (ilog2 \<bar>x\<bar>) (- 1022) - 52)"
  have u: "0 < u" by (simp add: u_def zero_less_power_int)
  have "rnd x - x = (of_int (round_half_even (x / u)) - x / u) * u"
    using u assms by (simp add: rnd_unfold u_def[symmetric] algebra_simps)
  then have "\<bar>rnd x - x\<bar> = \<bar>of_int (round_half_even (x / u)) - x / u\<bar> * u"
    using u by (simp add: abs_mult)
  also have "\<dots> \<le> (1 / 2) * u"
    using round_half_even_err[of "x / u"] u by (intro mult_right_mono) auto
  finally show ?thesis by (simp add: u_def)
qed

lemma rnd_rel_err:
  assumes "power_int 2 (- 1022) \<le> \<bar>x\<bar>"
  shows "\<bar>rnd x - x\<bar> \<le> \<bar>x\<bar> / 2 ^ 53"
proof -
  have pos: "0 < \<bar>x\<bar>" using assms zero_less_power_int[of "2::rat" "- 1022"] by linarith
  then have nz: "x \<noteq> 0" by simp
  have ge: "- 1022 \<le> ilog2 \<bar>x\<bar>" using assms by (rule ilog2_ge)
  then have mx: "max (ilog2 \<bar>x\<bar>) (- 1022) = ilog2 \<bar>x\<bar>" by simp
  have "power_int (2::rat) (ilog2 \<bar>x\<bar> - 52) / 2 = power_int 2 (ilog2 \<bar>x\<bar>) / 2 ^ 53"
    by (simp add: power_int_diff)
  also have "\<dots> \<le> \<bar>x\<bar> / 2 ^ 53"
    using ilog2_lower[OF pos] by (intro divide_right_mono) auto
  finally show ?thesis using rnd_ulp_err[OF nz] mx by simp
qed

lemma rnd_of_int:
  assumes "\<bar>k\<bar> < 2 ^ 53"
  shows "rnd (of_int k) = of_int k"
proof (cases "k = 0")
  case True
  then show ?thesis by (simp add: rnd_def)
next
  case False
  define x :: rat where "x = of_int k"
  have nz: "x \<noteq> 0" using False by (simp add: x_def)
  have "\<bar>x\<bar> = of_int \<bar>k\<bar>" by (simp add: x_def)
  moreover have "(of_int \<bar>k\<bar> :: rat) < of_int (2 ^ 53)" using assms by (simp only: of_int_less_iff)
  ultimately have lt: "\<bar>x\<bar> < power_int 2 53" by simp
  have "ilog2 \<bar>x\<bar> < 53" using nz lt by (intro ilog2_less) auto
  define e where "e = max (ilog2 \<bar>x\<bar>) (- 1022)"
  have e: "e \<le> 52" using \<open>ilog2 \<bar>x\<bar> < 53\<close> by (simp add: e_def)
  define j where "j = nat (52 - e)"
  have "power_int (2::rat) (e - 52) = power_int 2 (- int j)" using e by (simp add: j_def)
  also have "\<dots> = 1 / 2 ^ j" by (simp add: power_int_minus_divide)
  finally have u: "power_int (2::rat) (e - 52) = 1 / 2 ^ j" .
  have "x / (1 / 2 ^ j) = of_int (k * 2 ^ j)" by (simp add: x_def)
  then have "round_half_even (x / (1 / 2 ^ j)) = k * 2 ^ j" by (simp only: round_half_even_of_int)
  then have "rnd x = of_int (k * 2 ^ j) * (1 / 2 ^ j)"
    using nz u by (simp add: rnd_unfold e_def[symmetric])
  then show ?thesis by (simp add: x_def)
qed

lemma rnd_nonneg:
  assumes "0 \<le> x"
  shows "0 \<le> rnd x"
proof (cases "x = 0")
  case True
  then show ?thesis by (simp add: rnd_def)
next
  case False
  define u :: rat where "u = power_int 2 (max (ilog2 \<bar>x\<bar>) (- 1022) - 52)"
  have u: "0 < u" by (simp add: u_def zero_less_power_int)
  have "0 \<le> x / u" using assms u by simp
  then have "0 \<le> round_half_even (x / u)" by (rule round_half_even_nonneg)
  then have "0 \<le> (of_int (round_half_even (x / u)) :: rat)" by simp
  then have "0 \<le> of_int (round_half_even (x / u)) * u" using u by simp
  then show ?thesis using False by (simp add: rnd_unfold u_def)
qed

lemma rnd_nonpos:
  assumes "x \<le> 0"
  shows "rnd x \<le> 0"
proof (cases "x = 0")
  case True
  then show ?thesis by (simp add: rnd_def)
next
  case False
  define u :: rat where "u = power_int 2 (max (ilog2 \<bar>x\<bar>) (- 1022) - 52)"
  have u: "0 < u" by (simp add: u_def zero_less_power_int)
  have "x / u \<le> 0" using assms u by (simp add: divide_le_0_iff)
  then have "round_half_even (x / u) \<le> 0" by (rule round_half_even_nonpos)
  then have "(of_int (round_half_even (x / u)) :: rat) \<le> 0" by simp
  then have "of_int (round_half_even (x / u)) * u \<le> 0" using u by (simp add: mult_le_0_iff)
  then show ?thesis using False by (simp add: rnd_unfold u_def)
qed

lemma rnd_abs_bound: "\<bar>rnd x\<bar> \<le> 2 * \<bar>x\<bar> + 1"
proof (cases "x = 0")
  case True
  then show ?thesis by (simp add: rnd_def)
next
  case False
  then have pos: "0 < \<bar>x\<bar>" by simp
  define e where "e = max (ilog2 \<bar>x\<bar>) (- 1022)"
  have "power_int (2::rat) (e - 52) \<le> \<bar>x\<bar> + 1"
  proof (cases "- 1022 \<le> ilog2 \<bar>x\<bar>")
    case True
    then have "e = ilog2 \<bar>x\<bar>" by (simp add: e_def)
    moreover have "power_int (2::rat) (ilog2 \<bar>x\<bar> - 52) \<le> power_int 2 (ilog2 \<bar>x\<bar>)"
      by (intro power_int_increasing) auto
    ultimately show ?thesis using ilog2_lower[OF pos] by simp
  next
    case False
    then have "e = - 1022" by (simp add: e_def)
    moreover have "power_int (2::rat) (- 1022 - 52) \<le> power_int 2 0"
      by (intro power_int_increasing) auto
    ultimately show ?thesis using pos by simp
  qed
  then have "\<bar>rnd x - x\<bar> \<le> \<bar>x\<bar> + 1"
    using rnd_ulp_err[OF \<open>x \<noteq> 0\<close>] zero_less_power_int[of "2::rat" "e - 52"]
    unfolding e_def by linarith
  then show ?thesis by linarith
qed

text \<open>
  Dividing two integers below \<open>2 ^ 53\<close> in binary64 and taking the floor gives the
  integer quotient: the rounding error of the quotient is smaller than its distance to
  the next integer.
\<close>

lemma floor_rnd_div:
  assumes a: "0 \<le> a" "a < 2 ^ 53" and b: "0 < b" "b < 2 ^ 53"
  shows "\<lfloor>rnd (of_int a / of_int b)\<rfloor> = a div b"
proof -
  define q r where "q = a div b" and "r = a mod b"
  define A B :: rat where "A = of_int a" and "B = of_int b"
  define x where "x = A / B"
  have B: "0 < B" using b by (simp add: B_def)
  have "a = q * b + r" by (simp add: q_def r_def)
  then have "A = of_int q * B + of_int r" by (simp add: A_def B_def)
  then have x_eq: "x = of_int q + of_int r / B" using B by (simp add: x_def add_divide_distrib)
  have q: "0 \<le> q" "q \<le> a"
  proof -
    show "0 \<le> q" using a b by (simp add: q_def pos_imp_zdiv_nonneg_iff)
    have "a div b \<le> a div 1" using a b by (intro zdiv_mono2) auto
    then show "q \<le> a" by (simp add: q_def)
  qed
  show ?thesis
  proof (cases "r = 0")
    case True
    then have "x = of_int q" using x_eq by simp
    moreover have "\<bar>q\<bar> < 2 ^ 53" using q a by simp
    ultimately show ?thesis using rnd_of_int[of q] by (simp add: x_def A_def B_def q_def)
  next
    case False
    have "0 \<le> r" "r < b" using b by (simp_all add: r_def)
    then have r: "1 \<le> r" "r \<le> b - 1" using False by linarith+
    have "(of_int 1 :: rat) \<le> of_int r" using r(1) by (simp only: of_int_le_iff)
    then have lo: "1 / B \<le> of_int r / B" using B by (intro divide_right_mono) auto
    have "(of_int r :: rat) \<le> of_int (b - 1)" using r(2) by (simp only: of_int_le_iff)
    then have "of_int r / B \<le> (B - 1) / B" using B by (intro divide_right_mono) (auto simp: B_def)
    then have hi: "of_int r / B \<le> 1 - 1 / B" using B by (simp add: diff_divide_distrib)
    have invB: "0 < 1 / B" using B by simp
    have qr: "(0::rat) \<le> of_int q" using q by simp
    have xpos: "0 < x" using x_eq lo invB qr by linarith
    have "(of_int b :: rat) < of_int (2 ^ 53)" using b(2) by (simp only: of_int_less_iff)
    then have Blt: "B < 2 ^ 53" by (simp add: B_def)
    have "1 / 2 ^ 53 < 1 / B" using B Blt by (intro divide_strict_left_mono) auto
    moreover have "power_int (2::rat) (- 1022) \<le> power_int 2 (- 53)"
      by (intro power_int_increasing) auto
    moreover have "power_int (2::rat) (- 53) = 1 / 2 ^ 53" by (simp add: power_int_minus_divide)
    ultimately have "power_int 2 (- 1022) \<le> \<bar>x\<bar>" using x_eq lo qr by linarith
    then have err: "\<bar>rnd x - x\<bar> \<le> \<bar>x\<bar> / 2 ^ 53" by (rule rnd_rel_err)
    have "(of_int a :: rat) < of_int (2 ^ 53)" using a(2) by (simp only: of_int_less_iff)
    then have "A / 2 ^ 53 < 1" by (simp add: A_def)
    then have "A / 2 ^ 53 / B < 1 / B" using B by (intro divide_strict_right_mono) auto
    then have "\<bar>x\<bar> / 2 ^ 53 < 1 / B" using xpos by (simp add: x_def)
    with err have "\<bar>rnd x - x\<bar> < 1 / B" by linarith
    then have "of_int q < rnd x" "rnd x < of_int q + 1" using x_eq lo hi by linarith+
    then have "\<lfloor>rnd x\<rfloor> = q" by (intro floor_unique) auto
    then show ?thesis by (simp add: x_def A_def B_def q_def)
  qed
qed

section \<open>Finite results and the big-number constructor\<close>

lemma to_double_Num:
  assumes "2 * \<bar>x\<bar> + 1 < 2 ^ 1024"
  shows "to_double x = Num (rnd x)"
proof -
  have "\<bar>rnd x\<bar> < 2 ^ 1024" using rnd_abs_bound[of x] assms by linarith
  then have "\<bar>rnd x\<bar> < power_int 2 1024" by simp
  then have "rnd x = 0 \<or> ilog2 \<bar>rnd x\<bar> < 1024" by (auto intro: ilog2_less)
  then show ?thesis by (auto simp: to_double_def Let_def)
qed

lemma to_double_of_int:
  assumes "\<bar>k\<bar> < 2 ^ 53"
  shows "to_double (of_int k) = Num (of_int k)"
proof -
  have "(of_int \<bar>k\<bar> :: rat) < of_int (2 ^ 53)" using assms by (simp only: of_int_less_iff)
  then have "\<bar>of_int k :: rat\<bar> < 2 ^ 53" by simp
  moreover have "(2::rat) * 2 ^ 53 + 1 < 2 ^ 1024" by simp
  ultimately have "2 * \<bar>of_int k :: rat\<bar> + 1 < 2 ^ 1024" by linarith
  then show ?thesis using rnd_of_int[OF assms] by (simp add: to_double_Num)
qed

lemma js_trunc_of_int: "js_trunc (of_int k) = k"
  by (simp add: js_trunc_def)

lemma newBN_of_int: "\<bar>k\<bar> < 2 ^ 53 \<Longrightarrow> newBN (Num (of_int k)) = Inr k"
proof -
  assume "\<bar>k\<bar> < 2 ^ 53"
  then have "(of_int \<bar>k\<bar> :: rat) < of_int (2 ^ 53)" by (simp only: of_int_less_iff)
  then have "\<bar>of_int k :: rat\<bar> < 2 ^ 53" by simp
  then show ?thesis by (simp add: js_trunc_of_int)
qed

lemma of_int_abs_lt: "\<bar>k\<bar> < 2 ^ n \<Longrightarrow> \<bar>of_int k :: rat\<bar> < 2 ^ n"
proof -
  assume "\<bar>k\<bar> < 2 ^ n"
  then have "(of_int \<bar>k\<bar> :: rat) < of_int (2 ^ n)" by (simp only: of_int_less_iff)
  then show ?thesis by simp
qed

lemma maxBaseLots_of_exact:
  assumes "0 \<le> s" "s < 2 ^ 53" "0 < b" "b < 2 ^ 53"
  shows "maxBaseLots_of (Num (of_int s)) (Num (of_int b)) = Inr (s div b)"
proof -
  define x :: rat where "x = of_int s / of_int b"
  have "\<bar>x\<bar> \<le> \<bar>of_int s\<bar>"
  proof -
    have "(1::rat) \<le> of_int b" using assms(3) by simp
    then have "\<bar>of_int s :: rat\<bar> / of_int b \<le> \<bar>of_int s\<bar> / 1"
      by (intro divide_left_mono) auto
    then show ?thesis using assms(3) by (simp add: x_def)
  qed
  moreover have "\<bar>of_int s :: rat\<bar> < 2 ^ 53" using assms by (intro of_int_abs_lt) auto
  moreover have "(2::rat) * 2 ^ 53 + 1 < 2 ^ 1024" by simp
  ultimately have "2 * \<bar>x\<bar> + 1 < 2 ^ 1024" by linarith
  then have "to_double x = Num (rnd x)" by (rule to_double_Num)
  moreover have "\<lfloor>rnd x\<rfloor> = s div b" unfolding x_def using assms by (rule floor_rnd_div)
  moreover have "\<bar>s div b\<bar> < 2 ^ 53"
  proof -
    have "0 \<le> s div b" using assms by (simp add: pos_imp_zdiv_nonneg_iff)
    moreover have "s div b \<le> s div 1" using assms by (intro zdiv_mono2) auto
    ultimately show ?thesis using assms by simp
  qed
  ultimately show ?thesis using assms(3)
    by (simp add: maxBaseLots_of_def x_def newBN_of_int del: newBN.simps)
qed

lemma bindE_Inr_iff: "bindE m f = Inr y \<longleftrightarrow> (\<exists>x. m = Inr x \<and> f x = Inr y)"
  by (cases m) (simp_all add: bindE_def)

lemma toNumber_Inr_iff: "toNumber x = Inr n \<longleftrightarrow> \<bar>x\<bar> < 2 ^ 53 \<and> n = Num (of_int x)"
  by (auto simp: toNumber_def)

lemma computeOrderArgs_InrD:
  assumes "computeOrderArgs now orderParams market = Inr args"
  shows "\<bar>price_param orderParams\<bar> < 2 ^ 53" "\<bar>size_param orderParams\<bar> < 2 ^ 53"
    "\<bar>quoteLotSize market\<bar> < 2 ^ 53" "\<bar>baseLotSize market\<bar> < 2 ^ 53"
    "priceLots_of (Num (of_int (price_param orderParams))) (Num (of_int (quoteLotSize market)))
       (Num (of_int (baseLotSize market))) = Inr (priceLots args)"
    "maxBaseLots_of (Num (of_int (size_param orderParams))) (Num (of_int (baseLotSize market)))
       = Inr (maxBaseLots args)"
    "maxQuoteLots_of (Num (of_int (price_param orderParams))) (Num (of_int (size_param orderParams)))
       (Num (of_int (quoteLotSize market))) = Inr (maxQuoteLotsIncludingFees args)"
  using assms unfolding computeOrderArgs_def bindE_Inr_iff toNumber_Inr_iff
  by auto

section \<open>The order parameter calculator: base lots\<close>

text \<open>
  Claim C2.  Whenever the calculator produces order arguments for a non-negative size in
  the smallest base denomination and a positive base lot size, the maximal number of
  base lots is the integer quotient of the size by the base lot size, the floor of the
  exact quotient, and it is not negative.
\<close>

theorem maxBaseLots_floor:
  assumes "computeOrderArgs now orderParams market = Inr args"
    and "0 \<le> size_param orderParams" and "0 < baseLotSize market"
  shows "maxBaseLots args = size_param orderParams div baseLotSize market \<and> 0 \<le> maxBaseLots args"
proof -
  note D = computeOrderArgs_InrD[OF assms(1)]
  have "maxBaseLots_of (Num (of_int (size_param orderParams))) (Num (of_int (baseLotSize market)))
      = Inr (size_param orderParams div baseLotSize market)"
    using assms(2,3) D(2,4) by (intro maxBaseLots_of_exact) auto
  with D(6) have "maxBaseLots args = size_param orderParams div baseLotSize market" by simp
  then show ?thesis using assms(2,3) by (simp add: pos_imp_zdiv_nonneg_iff)
qed

text \<open>
  The order of 1000 tokens at 1.04 on a market with base lot size 7 and quote lot size 1.
\<close>

lemma fixture_args:
  "computeOrderArgs 1700000000000 \<lparr>price_param = 1040000, size_param = 1000000000\<rparr>
      \<lparr>baseLotSize = 7, quoteLotSize = 1\<rparr>
    = Inr \<lparr>side = Ask, priceLots = 1, maxBaseLots = 142857142,
           maxQuoteLotsIncludingFees = 1144000000, clientOrderId = 1700000000000,
           expiryTimestamp = 18446744073709551615, limit = 10\<rparr>"
proof -
  have a: "toNumber 1040000 = Inr (Num 1040000)" "toNumber 1000000000 = Inr (Num 1000000000)"
    "toNumber 1 = Inr (Num 1)" "toNumber 7 = Inr (Num 7)"
    by (simp_all add: toNumber_def)
  have b: "priceLots_of (Num 1040000) (Num 1) (Num 7) = Inr 1" by code_simp
  have c: "maxBaseLots_of (Num 1000000000) (Num 7) = Inr 142857142" by code_simp
  have d: "maxQuoteLots_of (Num 1040000) (Num 1000000000) (Num 1) = Inr 1144000000" by code_simp
  show ?thesis by (simp add: computeOrderArgs_def bindE_def a b c d)
qed

theorem maxBaseLots_floor_witness:
  "computeOrderArgs 1700000000000 \<lparr>price_param = 1040000, size_param = 1000000000\<rparr>
      \<lparr>baseLotSize = 7, quoteLotSize = 1\<rparr>
    = Inr \<lparr>side = Ask, priceLots = 1, maxBaseLots = 142857142,
           maxQuoteLotsIncludingFees = 1144000000, clientOrderId = 1700000000000,
           expiryTimestamp = 18446744073709551615, limit = 10\<rparr>
   \<and> (0::int) \<le> 1000000000 \<and> (0::int) < 7
   \<and> (142857142::int) = 1000000000 div 7 \<and> (0::int) \<le> 142857142"
  using maxBaseLots_floor[OF fixture_args] fixture_args by simp

section \<open>Signs of the results\<close>

lemma to_double_not_NaN: "to_double x \<noteq> NaN"
  by (simp add: to_double_def Let_def)

lemma nonneg_to_double: "0 \<le> x \<Longrightarrow> nonneg_js (to_double x)"
  using rnd_nonneg[of x] by (auto simp: to_double_def Let_def)

lemma nonneg_js_mul: "nonneg_js a \<Longrightarrow> nonneg_js b \<Longrightarrow> nonneg_js (js_mul a b)"
  by (cases a; cases b) (auto simp: nonneg_to_double)

lemma nonneg_js_div: "nonneg_js a \<Longrightarrow> nonneg_js b \<Longrightarrow> nonneg_js (js_div a b)"
  by (cases a; cases b) (auto simp: nonneg_to_double)

lemma nonneg_Math_floor: "nonneg_js a \<Longrightarrow> nonneg_js (Math_floor a)"
  by (cases a) auto

lemma newBN_nonneg: "nonneg_js x \<Longrightarrow> newBN x = Inr v \<Longrightarrow> 0 \<le> v"
  by (cases x) (auto simp: js_trunc_def split: if_splits)

lemma maxQuoteLots_of_nonneg:
  assumes "0 \<le> p" "0 \<le> s" "0 \<le> q" "maxQuoteLots_of (Num p) (Num s) (Num q) = Inr v"
  shows "0 \<le> v"
proof -
  have "nonneg_js (js_literal (11 / 10))" by (simp add: js_literal_def nonneg_to_double)
  then have "nonneg_js (totalQuoteNeeded (Num p) (Num s))"
    using assms(1,2) unfolding totalQuoteNeeded_def
    by (intro nonneg_js_div nonneg_js_mul) auto
  then have "nonneg_js (Math_floor (js_div (totalQuoteNeeded (Num p) (Num s)) (Num q)))"
    using assms(3) by (intro nonneg_Math_floor nonneg_js_div) auto
  then show ?thesis using assms(4) unfolding maxQuoteLots_of_def by (rule newBN_nonneg)
qed

section \<open>The order parameter calculator: price lots\<close>

lemma rnd_pos:
  assumes "1 \<le> x"
  shows "0 < rnd x"
proof -
  have "power_int (2::rat) (- 1022) \<le> power_int 2 0" by (intro power_int_increasing) auto
  then have "power_int 2 (- 1022) \<le> \<bar>x\<bar>" using assms by simp
  then have "\<bar>rnd x - x\<bar> \<le> \<bar>x\<bar> / 2 ^ 53" by (rule rnd_rel_err)
  moreover have "\<bar>x\<bar> / 2 ^ 53 < x" using assms by simp
  ultimately show ?thesis by linarith
qed

lemma priceLots_of_ge1:
  assumes "priceLots_of a q b = Inr v" and "priceLotsCalculation a q b \<noteq> NaN"
  shows "1 \<le> v"
proof (cases "priceLotsCalculation a q b")
  case (Num r)
  then have "newBN (Num (max 1 (of_int \<lfloor>r\<rfloor>))) = Inr v" using assms(1) by (simp add: priceLots_of_def)
  then have "v = js_trunc (max 1 (of_int \<lfloor>r\<rfloor>))" by (simp split: if_splits)
  then show ?thesis by (simp add: js_trunc_def max_def)
next
  case PosInf
  then show ?thesis using assms(1) by (simp add: priceLots_of_def)
next
  case NegInf
  then show ?thesis using assms(1) by (simp add: priceLots_of_def js_trunc_def)
next
  case NaN
  then show ?thesis using assms(2) by simp
qed

lemma priceLotsCalculation_not_NaN:
  assumes "0 < B" "B < 2 ^ 53"
  shows "priceLotsCalculation (Num p) (Num q) (Num (of_int B)) \<noteq> NaN"
proof -
  define x :: rat where "x = of_int B * 1000000"
  have "\<bar>of_int B :: rat\<bar> < 2 ^ 53" using assms by (intro of_int_abs_lt) auto
  then have xb: "\<bar>x\<bar> < 2 ^ 53 * 1000000" by (simp add: x_def abs_mult)
  have "(2::rat) * (2 ^ 53 * 1000000) + 1 < 2 ^ 1024" by simp
  with xb have "2 * \<bar>x\<bar> + 1 < 2 ^ 1024" by linarith
  then have d: "to_double x = Num (rnd x)" by (rule to_double_Num)
  have "(1::rat) \<le> of_int B" using assms(1) by simp
  then have "1 \<le> x" by (simp add: x_def)
  then have pos: "0 < rnd x" by (rule rnd_pos)
  show ?thesis
  proof (cases "to_double (p * q)")
    case (Num n)
    then show ?thesis using d pos by (simp add: priceLotsCalculation_def x_def to_double_not_NaN)
  next
    case PosInf
    then show ?thesis using d pos by (simp add: priceLotsCalculation_def x_def)
  next
    case NegInf
    then show ?thesis using d pos by (simp add: priceLotsCalculation_def x_def)
  next
    case NaN
    then show ?thesis using to_double_not_NaN[of "p * q"] by simp
  qed
qed

lemma abs_div_le:
  fixes a :: rat
  assumes "1 \<le> b"
  shows "\<bar>a / b\<bar> \<le> \<bar>a\<bar>"
proof -
  have "\<bar>a\<bar> / b \<le> \<bar>a\<bar> / 1" using assms by (intro divide_left_mono) auto
  then show ?thesis using assms by simp
qed

lemma floor_div_clamped:
  assumes "\<bar>a\<bar> < 2 ^ 53" "0 < b" "b < 2 ^ 53"
  shows "to_double (of_int a / of_int b) = Num (rnd (of_int a / of_int b))"
    and "max 1 \<lfloor>rnd (of_int a / of_int b)\<rfloor> = max 1 (a div b)"
    and "\<bar>max 1 (a div b)\<bar> < 2 ^ 53"
proof -
  define x :: rat where "x = of_int a / of_int b"
  have "(1::rat) \<le> of_int b" using assms(2) by simp
  then have "\<bar>x\<bar> \<le> \<bar>of_int a\<bar>" unfolding x_def by (rule abs_div_le)
  moreover have "\<bar>of_int a :: rat\<bar> < 2 ^ 53" using assms(1) by (rule of_int_abs_lt)
  moreover have "(2::rat) * 2 ^ 53 + 1 < 2 ^ 1024" by simp
  ultimately have "2 * \<bar>x\<bar> + 1 < 2 ^ 1024" by linarith
  then show "to_double (of_int a / of_int b) = Num (rnd (of_int a / of_int b))"
    unfolding x_def by (rule to_double_Num)
  show "max 1 \<lfloor>rnd (of_int a / of_int b)\<rfloor> = max 1 (a div b)"
  proof (cases "0 \<le> a")
    case True
    then have "\<lfloor>rnd (of_int a / of_int b)\<rfloor> = a div b"
      using assms by (intro floor_rnd_div) auto
    then show ?thesis by simp
  next
    case False
    then have "x \<le> 0" using assms(2) by (simp add: x_def divide_le_0_iff)
    then have "rnd x \<le> 0" by (rule rnd_nonpos)
    then have "\<lfloor>rnd x\<rfloor> \<le> 0" by (simp add: floor_le_iff)
    moreover have "a div b < 0" using False assms(2) by (simp add: pos_imp_zdiv_neg_iff)
    ultimately show ?thesis by (simp add: x_def)
  qed
  show "\<bar>max 1 (a div b)\<bar> < 2 ^ 53"
  proof (cases "0 \<le> a")
    case True
    have "a div b \<le> a div 1" using True assms(2) by (intro zdiv_mono2) auto
    then show ?thesis using assms(1) True by (auto simp: max_def)
  next
    case False
    then have "a div b < 0" using assms(2) by (simp add: pos_imp_zdiv_neg_iff)
    then show ?thesis by (simp add: max_def)
  qed
qed

lemma js_mul_ints:
  assumes "\<bar>p * q\<bar> < 2 ^ 53"
  shows "js_mul (Num (of_int p)) (Num (of_int q)) = Num (of_int (p * q))"
  using to_double_of_int[OF assms] by simp

lemma priceLots_of_exact:
  assumes "\<bar>p * q\<bar> < 2 ^ 53" "0 < B" "B * 1000000 < 2 ^ 53"
  shows "priceLots_of (Num (of_int p)) (Num (of_int q)) (Num (of_int B))
         = Inr (max 1 (p * q div (B * 1000000)))"
proof -
  define a b where "a = p * q" and "b = B * 1000000"
  have b: "0 < b" "b < 2 ^ 53" "\<bar>b\<bar> < 2 ^ 53" using assms by (simp_all add: b_def)
  have a: "\<bar>a\<bar> < 2 ^ 53" using assms by (simp add: a_def)
  have m1: "js_mul (Num (of_int p)) (Num (of_int q)) = Num (of_int a)"
    unfolding a_def using assms(1) by (rule js_mul_ints)
  have "js_mul (Num (of_int B)) (Num (of_int 1000000)) = Num (of_int b)"
    unfolding b_def using b(3)[unfolded b_def] by (rule js_mul_ints)
  then have m2: "js_mul (Num (of_int B)) (Num 1000000) = Num (of_int b)" by simp
  note F = floor_div_clamped[OF a b(1,2)]
  have nz: "(of_int b :: rat) \<noteq> 0" using b(1) by simp
  have "priceLotsCalculation (Num (of_int p)) (Num (of_int q)) (Num (of_int B))
        = Num (rnd (of_int a / of_int b))"
    unfolding priceLotsCalculation_def m1 m2 using nz F(1) by simp
  then have "priceLots_of (Num (of_int p)) (Num (of_int q)) (Num (of_int B))
        = newBN (Num (max 1 (of_int \<lfloor>rnd (of_int a / of_int b)\<rfloor>)))"
    by (simp add: priceLots_of_def)
  also have "max (1::rat) (of_int \<lfloor>rnd (of_int a / of_int b)\<rfloor>)
        = of_int (max 1 \<lfloor>rnd (of_int a / of_int b)\<rfloor>)" by (simp add: max_def)
  also have "newBN (Num (of_int (max 1 \<lfloor>rnd (of_int a / of_int b)\<rfloor>))) = Inr (max 1 (a div b))"
    unfolding F(2) using F(3) by (rule newBN_of_int)
  finally show ?thesis by (simp add: a_def b_def)
qed

text \<open>
  Beyond \<open>2 ^ 53\<close> the product of the price and the quote lot size is rounded, and the
  price in lots can exceed the exact floor.
\<close>

lemma priceLots_rounded_product:
  "priceLots_of (Num 6256862989307692) (Num 13) (Num 1) = Inr 81339218861
   \<and> max 1 (6256862989307692 * 13 div (1 * 1000000)) = (81339218860 :: int)"
proof -
  have "priceLots_of (Num 6256862989307692) (Num 13) (Num 1) = Inr 81339218861" by code_simp
  then show ?thesis by simp
qed

text \<open>
  The order of 1000 tokens at 1.04 on a market with both lot sizes 1, and the order of
  100 tokens at 1.04 on a market with base lot size 1000000000 and quote lot size 1.
\<close>

lemma fixture_unit_lots:
  "computeOrderArgs 1700000000000 \<lparr>price_param = 1040000, size_param = 1000000000\<rparr>
      \<lparr>baseLotSize = 1, quoteLotSize = 1\<rparr>
    = Inr \<lparr>side = Ask, priceLots = 1, maxBaseLots = 1000000000,
           maxQuoteLotsIncludingFees = 1144000000, clientOrderId = 1700000000000,
           expiryTimestamp = 18446744073709551615, limit = 10\<rparr>"
proof -
  have a: "toNumber 1040000 = Inr (Num 1040000)" "toNumber 1000000000 = Inr (Num 1000000000)"
    "toNumber 1 = Inr (Num 1)"
    by (simp_all add: toNumber_def)
  have b: "priceLots_of (Num 1040000) (Num 1) (Num 1) = Inr 1" by code_simp
  have c: "maxBaseLots_of (Num 1000000000) (Num 1) = Inr 1000000000" by code_simp
  have d: "maxQuoteLots_of (Num 1040000) (Num 1000000000) (Num 1) = Inr 1144000000" by code_simp
  show ?thesis by (simp add: computeOrderArgs_def bindE_def a b c d)
qed

lemma fixture_small_order:
  "computeOrderArgs 1700000000000 \<lparr>price_param = 1040000, size_param = 100000000\<rparr>
      \<lparr>baseLotSize = 1000000000, quoteLotSize = 1\<rparr>
    = Inr \<lparr>side = Ask, priceLots = 1, maxBaseLots = 0,
           maxQuoteLotsIncludingFees = 114400000, clientOrderId = 1700000000000,
           expiryTimestamp = 18446744073709551615, limit = 10\<rparr>"
proof -
  have a: "toNumber 1040000 = Inr (Num 1040000)" "toNumber 100000000 = Inr (Num 100000000)"
    "toNumber 1 = Inr (Num 1)" "toNumber 1000000000 = Inr (Num 1000000000)"
    by (simp_all add: toNumber_def)
  have b: "priceLots_of (Num 1040000) (Num 1) (Num 1000000000) = Inr 1" by code_simp
  have c: "maxBaseLots_of (Num 100000000) (Num 1000000000) = Inr 0" by code_simp
  have d: "maxQuoteLots_of (Num 1040000) (Num 100000000) (Num 1) = Inr 114400000" by code_simp
  show ?thesis by (simp add: computeOrderArgs_def bindE_def a b c d)
qed

lemma fixture_priced:
  "computeOrderArgs 1700000000000 \<lparr>price_param = 2500000, size_param = 4000000\<rparr>
      \<lparr>baseLotSize = 10, quoteLotSize = 100\<rparr>
    = Inr \<lparr>side = Ask, priceLots = 25, maxBaseLots = 400000,
           maxQuoteLotsIncludingFees = 110000, clientOrderId = 1700000000000,
           expiryTimestamp = 18446744073709551615, limit = 10\<rparr>"
proof -
  have a: "toNumber 2500000 = Inr (Num 2500000)" "toNumber 4000000 = Inr (Num 4000000)"
    "toNumber 100 = Inr (Num 100)" "toNumber 10 = Inr (Num 10)"
    by (simp_all add: toNumber_def)
  have b: "priceLots_of (Num 2500000) (Num 100) (Num 10) = Inr 25" by code_simp
  have c: "maxBaseLots_of (Num 4000000) (Num 10) = Inr 400000" by code_simp
  have d: "maxQuoteLots_of (Num 2500000) (Num 4000000) (Num 100) = Inr 110000" by code_simp
  show ?thesis by (simp add: computeOrderArgs_def bindE_def a b c d)
qed

text \<open>
  Claim C1, as stated: the price in lots is the floor of the price per unit in the
  smallest quote denomination times the quote lot size over the base lot size, clamped to
  1.  At the price of 1040000 micro-units with both lot sizes 1 the stated formula gives
  1040000 and the code gives 1: the code also divides by 1000000.
\<close>

theorem priceLots_spec_counterexample:
  "computeOrderArgs 1700000000000 \<lparr>price_param = 1040000, size_param = 1000000000\<rparr>
      \<lparr>baseLotSize = 1, quoteLotSize = 1\<rparr>
    = Inr \<lparr>side = Ask, priceLots = 1, maxBaseLots = 1000000000,
           maxQuoteLotsIncludingFees = 1144000000, clientOrderId = 1700000000000,
           expiryTimestamp = 18446744073709551615, limit = 10\<rparr>
   \<and> spec_priceLots 1040000 1 1 = 1040000"
  using fixture_unit_lots by (simp add: spec_priceLots_def)

text \<open>
  Claim C1, amended.  Whenever the calculator produces order arguments on a market with a
  positive base lot size, the price in lots is at least 1; and when the product of the
  price in micro-units and the quote lot size, and the base lot size times 1000000, are
  below \<open>2 ^ 53\<close> (so that both are exact in binary64), it is the floor of
  price times quote lot size over base lot size times 1000000, clamped to 1.
\<close>

theorem priceLots_clamped:
  assumes "computeOrderArgs now orderParams market = Inr args"
    and "0 < baseLotSize market"
  shows "1 \<le> priceLots args \<and>
         (\<bar>price_param orderParams * quoteLotSize market\<bar> < 2 ^ 53 \<and>
          baseLotSize market * 1000000 < 2 ^ 53 \<longrightarrow>
          priceLots args =
            max 1 (price_param orderParams * quoteLotSize market div (baseLotSize market * 1000000)))"
proof -
  note D = computeOrderArgs_InrD[OF assms(1)]
  have "priceLotsCalculation (Num (of_int (price_param orderParams)))
          (Num (of_int (quoteLotSize market))) (Num (of_int (baseLotSize market))) \<noteq> NaN"
    using assms(2) D(4) by (intro priceLotsCalculation_not_NaN) auto
  with D(5) have "1 \<le> priceLots args" by (rule priceLots_of_ge1)
  moreover have "priceLots args =
      max 1 (price_param orderParams * quoteLotSize market div (baseLotSize market * 1000000))"
    if "\<bar>price_param orderParams * quoteLotSize market\<bar> < 2 ^ 53"
      and "baseLotSize market * 1000000 < 2 ^ 53"
    using priceLots_of_exact[OF that(1) assms(2) that(2)] D(5) by simp
  ultimately show ?thesis by blast
qed

theorem priceLots_clamped_witness:
  "computeOrderArgs 1700000000000 \<lparr>price_param = 2500000, size_param = 4000000\<rparr>
      \<lparr>baseLotSize = 10, quoteLotSize = 100\<rparr>
    = Inr \<lparr>side = Ask, priceLots = 25, maxBaseLots = 400000,
           maxQuoteLotsIncludingFees = 110000, clientOrderId = 1700000000000,
           expiryTimestamp = 18446744073709551615, limit = 10\<rparr>
   \<and> (0::int) < 10 \<and> \<bar>2500000 * 100 :: int\<bar> < 2 ^ 53 \<and> (10 * 1000000 :: int) < 2 ^ 53
   \<and> (1::int) \<le> 25 \<and> (25::int) = max 1 (2500000 * 100 div (10 * 1000000))"
  using priceLots_clamped[OF fixture_priced] fixture_priced by simp

text \<open>
  Claim C4, as stated: every set of order arguments the calculator produces has
  non-negative integer fields, at least 1 where a zero would make the order unfillable.
  The smallest amount of the form, 100 tokens, on a market whose base lot is 1000000000
  smallest units gives an order for 0 base lots.
\<close>

theorem order_args_invariant_counterexample:
  "orderParams_of (Num 100) = Inr \<lparr>price_param = 1040000, size_param = 100000000\<rparr>
   \<and> computeOrderArgs 1700000000000 \<lparr>price_param = 1040000, size_param = 100000000\<rparr>
        \<lparr>baseLotSize = 1000000000, quoteLotSize = 1\<rparr>
      = Inr \<lparr>side = Ask, priceLots = 1, maxBaseLots = 0,
             maxQuoteLotsIncludingFees = 114400000, clientOrderId = 1700000000000,
             expiryTimestamp = 18446744073709551615, limit = 10\<rparr>
   \<and> \<not> order_args_invariant
         \<lparr>side = Ask, priceLots = 1, maxBaseLots = 0,
          maxQuoteLotsIncludingFees = 114400000, clientOrderId = 1700000000000,
          expiryTimestamp = 18446744073709551615, limit = 10\<rparr>"
proof -
  have "orderParams_of (Num 100) = Inr \<lparr>price_param = 1040000, size_param = 100000000\<rparr>"
    by code_simp
  then show ?thesis using fixture_small_order by (simp add: order_args_invariant_def)
qed

text \<open>
  The order request built from an amount that is not negative has a price and a size that
  are not negative.
\<close>

lemma orderParams_of_nonneg:
  assumes "nonneg_js amount" and "orderParams_of amount = Inr orderParams"
  shows "0 \<le> price_param orderParams \<and> 0 \<le> size_param orderParams"
proof -
  have l: "nonneg_js (js_literal (26 / 25))" by (simp add: js_literal_def nonneg_to_double)
  have p: "nonneg_js (Math_floor (js_mul (js_div (js_mul amount (js_literal (26 / 25))) amount)
              (Num 1000000)))"
    using assms(1) l by (intro nonneg_Math_floor nonneg_js_mul nonneg_js_div) auto
  have s: "nonneg_js (Math_floor (js_mul amount (Num 1000000)))"
    using assms(1) by (intro nonneg_Math_floor nonneg_js_mul) auto
  from assms(2) obtain pv sv where
    pv: "newBN (Math_floor (js_mul (js_div (js_mul amount (js_literal (26 / 25))) amount)
              (Num 1000000))) = Inr pv"
    and sv: "newBN (Math_floor (js_mul amount (Num 1000000))) = Inr sv"
    and op: "orderParams = \<lparr>price_param = pv, size_param = sv\<rparr>"
    unfolding orderParams_of_def Let_def bindE_Inr_iff by auto
  have "0 \<le> pv" using p pv by (rule newBN_nonneg)
  moreover have "0 \<le> sv" using s sv by (rule newBN_nonneg)
  ultimately show ?thesis by (simp add: op)
qed

text \<open>
  Claim C4, amended.  For a non-negative price and size and positive lot sizes, every set
  of order arguments the calculator produces has a price of at least 1 lot and
  non-negative base and quote lots; the base lots are not clamped, and the invariant
  holds exactly when the size is at least one base lot.
\<close>

theorem order_args_invariant_iff:
  assumes "computeOrderArgs now orderParams market = Inr args"
    and "0 \<le> price_param orderParams" and "0 \<le> size_param orderParams"
    and "0 < baseLotSize market" and "0 < quoteLotSize market"
  shows "1 \<le> priceLots args \<and> 0 \<le> maxBaseLots args \<and> 0 \<le> maxQuoteLotsIncludingFees args
         \<and> (order_args_invariant args \<longleftrightarrow> baseLotSize market \<le> size_param orderParams)"
proof -
  note D = computeOrderArgs_InrD[OF assms(1)]
  have "priceLotsCalculation (Num (of_int (price_param orderParams)))
          (Num (of_int (quoteLotSize market))) (Num (of_int (baseLotSize market))) \<noteq> NaN"
    using assms(4) D(4) by (intro priceLotsCalculation_not_NaN) auto
  with D(5) have p: "1 \<le> priceLots args" by (rule priceLots_of_ge1)
  have "maxBaseLots_of (Num (of_int (size_param orderParams)))
        (Num (of_int (baseLotSize market))) = Inr (size_param orderParams div baseLotSize market)"
    using assms(3,4) D(2,4) by (intro maxBaseLots_of_exact) auto
  with D(6) have b: "maxBaseLots args = size_param orderParams div baseLotSize market" by simp
  then have b0: "0 \<le> maxBaseLots args" using assms(3,4) by (simp add: pos_imp_zdiv_nonneg_iff)
  have b1: "1 \<le> maxBaseLots args \<longleftrightarrow> baseLotSize market \<le> size_param orderParams"
    unfolding b using assms(4) pos_imp_zdiv_pos_iff[of "baseLotSize market" "size_param orderParams"]
    by linarith
  have q: "0 \<le> maxQuoteLotsIncludingFees args"
    using assms(2,3,5) D(7) by (intro maxQuoteLots_of_nonneg[OF _ _ _ D(7)]) auto
  show ?thesis using p b0 b1 q by (simp add: order_args_invariant_def)
qed

theorem order_args_invariant_iff_witness:
  "computeOrderArgs 1700000000000 \<lparr>price_param = 1040000, size_param = 1000000000\<rparr>
      \<lparr>baseLotSize = 7, quoteLotSize = 1\<rparr>
    = Inr \<lparr>side = Ask, priceLots = 1, maxBaseLots = 142857142,
           maxQuoteLotsIncludingFees = 1144000000, clientOrderId = 1700000000000,
           expiryTimestamp = 18446744073709551615, limit = 10\<rparr>
   \<and> (0::int) \<le> 1040000 \<and> (0::int) \<le> 1000000000 \<and> (0::int) < 7 \<and> (0::int) < 1
   \<and> (1::int) \<le> 1 \<and> (0::int) \<le> 142857142 \<and> (0::int) \<le> 1144000000
   \<and> (7::int) \<le> 1000000000
   \<and> order_args_invariant
         \<lparr>side = Ask, priceLots = 1, maxBaseLots = 142857142,
           maxQuoteLotsIncludingFees = 1144000000, clientOrderId = 1700000000000,
           expiryTimestamp = 18446744073709551615, limit = 10\<rparr>"
  using order_args_invariant_iff[OF fixture_args] fixture_args by simp

section \<open>The order parameter calculator: quote lots\<close>

lemma rnd_rel_err0:
  assumes "x = 0 \<or> 1 / 2 ^ 80 \<le> x"
  shows "\<bar>rnd x - x\<bar> \<le> x / 2 ^ 53"
proof (cases "x = 0")
  case True
  then show ?thesis by (simp add: rnd_def)
next
  case False
  then have x: "1 / 2 ^ 80 \<le> x" using assms by simp
  have "power_int (2::rat) (- 1022) \<le> power_int 2 (- 80)" by (intro power_int_increasing) auto
  moreover have "power_int (2::rat) (- 80) = 1 / 2 ^ 80" by (simp add: power_int_minus_divide)
  moreover have "0 < x" using x by (rule less_le_trans[rotated]) simp
  ultimately have "power_int 2 (- 1022) \<le> \<bar>x\<bar>" using x by linarith
  then have "\<bar>rnd x - x\<bar> \<le> \<bar>x\<bar> / 2 ^ 53" by (rule rnd_rel_err)
  then show ?thesis using \<open>0 < x\<close> by simp
qed

lemma js_literal_11_10: "js_literal (11 / 10) = Num (2476979795053773 / 2251799813685248)"
  by code_simp

lemma rnd_rel_bounds:
  assumes "x = 0 \<or> 1 / 2 ^ 80 \<le> x"
  shows "x * (1 - 1 / 2 ^ 53) \<le> rnd x" and "rnd x \<le> x * (1 + 1 / 2 ^ 53)"
proof -
  define d where "d = x / 2 ^ 53"
  have e: "\<bar>rnd x - x\<bar> \<le> d" unfolding d_def using assms by (rule rnd_rel_err0)
  have l: "x * (1 - 1 / 2 ^ 53) = x - d" and u: "x * (1 + 1 / 2 ^ 53) = x + d"
    by (simp_all add: d_def algebra_simps)
  have "rnd x - x \<le> d" "- (rnd x - x) \<le> d" using e by (rule abs_le_D1, rule abs_le_D2)
  then show "x * (1 - 1 / 2 ^ 53) \<le> rnd x" and "rnd x \<le> x * (1 + 1 / 2 ^ 53)"
    unfolding l u by linarith+
qed

text \<open>
  The five roundings of \<^verbatim>\<open>((p * s * 1.1) / 1000000) / q\<close>: the product, the literal
  1.1, the multiplication by it and the two divisions.  Each moves the value by at most
  one part in \<open>2 ^ 53\<close>.
\<close>

lemma quote_chain_rel:
  fixes N Q :: rat
  assumes N: "N = 0 \<or> 1 \<le> N" and Q: "1 \<le> Q" "Q < 2 ^ 53"
  defines "c \<equiv> 2476979795053773 / 2251799813685248"
  defines "y0 \<equiv> rnd N"
  defines "y1 \<equiv> rnd (y0 * c)"
  defines "y2 \<equiv> rnd (y1 / 1000000)"
  defines "y3 \<equiv> rnd (y2 / Q)"
  shows "0 \<le> y0 \<and> y0 \<le> 16 * N" and "0 \<le> y1 \<and> y1 \<le> 16 * N" and "0 \<le> y2 \<and> y2 \<le> 16 * N"
    and "0 \<le> y3 \<and> y3 \<le> 16 * N"
    and "N * (11 / 10) / (1000000 * Q) * (1 - 4 / 2 ^ 53) \<le> y3"
    and "y3 \<le> N * (11 / 10) / (1000000 * Q) * (1 + 6 / 2 ^ 53)"
proof -
  define L U :: rat where "L = 1 - 1 / 2 ^ 53" and "U = 1 + 1 / 2 ^ 53"
  have LU: "0 \<le> L" "0 \<le> U" "1 / 2 \<le> L" "U \<le> 2" by (simp_all add: L_def U_def)
  have c: "0 \<le> c" "11 / 10 \<le> c" "c \<le> 2" by (simp_all add: c_def)
  have N0: "0 \<le> N" using N by auto
  have Qpos: "0 < Q" using Q(1) by simp
  \<comment> \<open>the product\<close>
  have "N = 0 \<or> 1 / 2 ^ 80 \<le> N" using N by auto
  then have b0: "N * L \<le> y0" "y0 \<le> N * U"
    unfolding y0_def L_def U_def by (rule rnd_rel_bounds)+
  have y0n: "0 \<le> y0" unfolding y0_def using N0 by (rule rnd_nonneg)
  have y0c: "y0 = 0 \<or> 1 / 2 \<le> y0"
  proof (cases "N = 0")
    case True
    then show ?thesis by (simp add: y0_def rnd_def)
  next
    case False
    then have "1 \<le> N" using N by simp
    then have "1 * (1 / 2) \<le> N * L" using LU(3) by (intro mult_mono) auto
    then show ?thesis using b0(1) by simp
  qed
  have "N * U \<le> N * 2" using LU(4) N0 by (intro mult_left_mono) auto
  then have y0u: "y0 \<le> 2 * N" using b0(2) by simp
  then show "0 \<le> y0 \<and> y0 \<le> 16 * N" using y0n N0 by simp
  \<comment> \<open>the safety margin\<close>
  define z1 where "z1 = y0 * c"
  have z1n: "0 \<le> z1" using y0n c(1) by (simp add: z1_def)
  have z1c: "z1 = 0 \<or> 1 / 2 ^ 80 \<le> z1"
  proof (cases "y0 = 0")
    case True
    then show ?thesis by (simp add: z1_def)
  next
    case False
    then have "1 / 2 \<le> y0" using y0c by simp
    then have "(1 / 2) * 1 \<le> y0 * c" using c(2) by (intro mult_mono) auto
    then have "1 / 2 \<le> z1" by (simp add: z1_def)
    then show ?thesis by simp
  qed
  have z1lo: "N * L * (11 / 10) \<le> z1"
  proof -
    have "N * L * (11 / 10) \<le> y0 * (11 / 10)" using b0(1) by (intro mult_right_mono) auto
    also have "\<dots> \<le> y0 * c" using c(2) y0n by (intro mult_left_mono) auto
    finally show ?thesis by (simp add: z1_def)
  qed
  have z1hi: "z1 \<le> N * U * c" unfolding z1_def using b0(2) c(1) by (intro mult_right_mono) auto
  have b1: "z1 * L \<le> y1" "y1 \<le> z1 * U"
    unfolding y1_def z1_def[symmetric] L_def U_def using z1c by (rule rnd_rel_bounds)+
  have y1n: "0 \<le> y1" unfolding y1_def z1_def[symmetric] using z1n by (rule rnd_nonneg)
  have y1c: "y1 = 0 \<or> 1 / 4 \<le> y1"
  proof (cases "z1 = 0")
    case True
    then show ?thesis by (simp add: y1_def z1_def[symmetric] rnd_def)
  next
    case False
    then have "y0 \<noteq> 0" by (auto simp: z1_def)
    then have "1 / 2 \<le> y0" using y0c by simp
    then have "(1 / 2) * 1 \<le> y0 * c" using c(2) by (intro mult_mono) auto
    then have "1 / 2 \<le> z1" by (simp add: z1_def)
    then have "(1 / 2) * (1 / 2) \<le> z1 * L" using LU(3) by (intro mult_mono) auto
    then show ?thesis using b1(1) by simp
  qed
  have y1lo: "N * L * (11 / 10) * L \<le> y1"
  proof -
    have "N * L * (11 / 10) * L \<le> z1 * L" using z1lo LU(1) by (intro mult_right_mono) auto
    then show ?thesis using b1(1) by linarith
  qed
  have y1hi: "y1 \<le> N * U * c * U"
  proof -
    have "z1 * U \<le> N * U * c * U" using z1hi LU(2) by (intro mult_right_mono) auto
    then show ?thesis using b1(2) by linarith
  qed
  have "N * U * c * U \<le> N * 2 * 2 * 2"
    using LU c N0 by (intro mult_mono mult_nonneg_nonneg) auto
  then have y1u: "y1 \<le> 8 * N" using y1hi by simp
  then show "0 \<le> y1 \<and> y1 \<le> 16 * N" using y1n N0 by simp
  \<comment> \<open>the division by 1000000\<close>
  define z2 where "z2 = y1 / 1000000"
  have z2n: "0 \<le> z2" using y1n by (simp add: z2_def)
  have z2c: "z2 = 0 \<or> 1 / 2 ^ 80 \<le> z2" using y1c by (auto simp: z2_def)
  have b2: "z2 * L \<le> y2" "y2 \<le> z2 * U"
    unfolding y2_def z2_def[symmetric] L_def U_def using z2c by (rule rnd_rel_bounds)+
  have y2n: "0 \<le> y2" unfolding y2_def z2_def[symmetric] using z2n by (rule rnd_nonneg)
  have y2c: "y2 = 0 \<or> 1 / 2 ^ 24 \<le> y2"
  proof (cases "y1 = 0")
    case True
    then show ?thesis by (simp add: y2_def rnd_def)
  next
    case False
    then have "1 / 4 \<le> y1" using y1c by simp
    then have "1 / 4000000 \<le> z2" by (simp add: z2_def)
    then have "(1 / 4000000) * (1 / 2) \<le> z2 * L" using LU(3) by (intro mult_mono) auto
    moreover have "(1::rat) / 2 ^ 24 \<le> (1 / 4000000) * (1 / 2)" by simp
    ultimately have "1 / 2 ^ 24 \<le> y2" using b2(1) by linarith
    then show ?thesis by simp
  qed
  have y2lo: "N * L * (11 / 10) * L / 1000000 * L \<le> y2"
  proof -
    have "N * L * (11 / 10) * L / 1000000 \<le> z2"
      unfolding z2_def using y1lo by (intro divide_right_mono) auto
    then have "N * L * (11 / 10) * L / 1000000 * L \<le> z2 * L"
      using LU(1) by (intro mult_right_mono) auto
    then show ?thesis using b2(1) by linarith
  qed
  have y2hi: "y2 \<le> N * U * c * U / 1000000 * U"
  proof -
    have "z2 \<le> N * U * c * U / 1000000"
      unfolding z2_def using y1hi by (intro divide_right_mono) auto
    then have "z2 * U \<le> N * U * c * U / 1000000 * U"
      using LU(2) by (intro mult_right_mono) auto
    then show ?thesis using b2(2) by linarith
  qed
  have "z2 * U \<le> z2 * 2" using LU(4) z2n by (rule mult_left_mono)
  moreover have "z2 * 2 \<le> y1" using y1n by (simp add: z2_def)
  ultimately have "y2 \<le> y1" using b2(2) by linarith
  then have y2u: "y2 \<le> 8 * N" using y1u by linarith
  then show "0 \<le> y2 \<and> y2 \<le> 16 * N" using y2n N0 by simp
  \<comment> \<open>the division by the quote lot size\<close>
  define z3 where "z3 = y2 / Q"
  have z3n: "0 \<le> z3" using y2n Qpos by (simp add: z3_def)
  have z3c: "z3 = 0 \<or> 1 / 2 ^ 80 \<le> z3"
  proof (cases "y2 = 0")
    case True
    then show ?thesis by (simp add: z3_def)
  next
    case False
    then have "1 / 2 ^ 24 \<le> y2" using y2c by simp
    then have "(1 / 2 ^ 24) / 2 ^ 53 \<le> y2 / Q" using Qpos Q(2) by (intro frac_le) auto
    moreover have "(1::rat) / 2 ^ 80 \<le> (1 / 2 ^ 24) / 2 ^ 53" by simp
    ultimately have "1 / 2 ^ 80 \<le> z3" unfolding z3_def by linarith
    then show ?thesis by blast
  qed
  have b3: "z3 * L \<le> y3" "y3 \<le> z3 * U"
    unfolding y3_def z3_def[symmetric] L_def U_def using z3c by (rule rnd_rel_bounds)+
  have y3n: "0 \<le> y3" unfolding y3_def z3_def[symmetric] using z3n by (rule rnd_nonneg)
  have y3lo: "N * L * (11 / 10) * L / 1000000 * L / Q * L \<le> y3"
  proof -
    have "N * L * (11 / 10) * L / 1000000 * L / Q \<le> z3"
      unfolding z3_def using y2lo Qpos by (intro divide_right_mono) auto
    then have "N * L * (11 / 10) * L / 1000000 * L / Q * L \<le> z3 * L"
      using LU(1) by (intro mult_right_mono) auto
    then show ?thesis using b3(1) by linarith
  qed
  have y3hi: "y3 \<le> N * U * c * U / 1000000 * U / Q * U"
  proof -
    have "z3 \<le> N * U * c * U / 1000000 * U / Q"
      unfolding z3_def using y2hi Qpos by (intro divide_right_mono) auto
    then have "z3 * U \<le> N * U * c * U / 1000000 * U / Q * U"
      using LU(2) by (intro mult_right_mono) auto
    then show ?thesis using b3(2) by linarith
  qed
  have "z3 \<le> y2" using y2n Q(1) abs_div_le[OF Q(1), of y2] by (simp add: z3_def)
  moreover have "z3 * U \<le> z3 * 2" using LU(4) z3n by (rule mult_left_mono)
  ultimately have "y3 \<le> 16 * N" using b3(2) y2u by linarith
  then show "0 \<le> y3 \<and> y3 \<le> 16 * N" using y3n by simp
  \<comment> \<open>against the exact value\<close>
  define X where "X = N * (11 / 10) / (1000000 * Q)"
  have X0: "0 \<le> X" using N0 Qpos by (simp add: X_def)
  have "N * U * c * U / 1000000 * U / Q * U = X * (U * U * U * U * c * (10 / 11))"
    using Qpos by (simp add: X_def field_simps)
  moreover have "U * U * U * U * c * (10 / 11) \<le> 1 + 6 / 2 ^ 53" by (simp add: U_def c_def)
  ultimately have "y3 \<le> X * (1 + 6 / 2 ^ 53)"
    using y3hi X0 mult_left_mono[of "U * U * U * U * c * (10 / 11)" "1 + 6 / 2 ^ 53" X] by linarith
  then show "y3 \<le> N * (11 / 10) / (1000000 * Q) * (1 + 6 / 2 ^ 53)" unfolding X_def .
  have "N * L * (11 / 10) * L / 1000000 * L / Q * L = X * (L * L * L * L)"
    using Qpos by (simp add: X_def field_simps)
  moreover have "1 - 4 / 2 ^ 53 \<le> L * L * L * L" by (simp add: L_def)
  ultimately have "X * (1 - 4 / 2 ^ 53) \<le> y3"
    using y3lo X0 mult_left_mono[of "1 - 4 / 2 ^ 53" "L * L * L * L" X] by linarith
  then show "N * (11 / 10) / (1000000 * Q) * (1 - 4 / 2 ^ 53) \<le> y3" unfolding X_def .
qed

lemma to_double_Num_rnd:
  assumes "\<bar>rnd x\<bar> < 2 ^ 1024"
  shows "to_double x = Num (rnd x)"
proof -
  have "\<bar>rnd x\<bar> < power_int 2 1024" using assms by simp
  then have "rnd x = 0 \<or> ilog2 \<bar>rnd x\<bar> < 1024" by (auto intro: ilog2_less)
  then show ?thesis by (auto simp: to_double_def Let_def)
qed

lemma to_double_Num_le:
  assumes "0 \<le> rnd x" "rnd x \<le> 16 * N" "N < 2 ^ 106"
  shows "to_double x = Num (rnd x)"
proof -
  have "16 * N < 16 * 2 ^ 106" using assms(3) by simp
  moreover have "(16::rat) * 2 ^ 106 < 2 ^ 1024" by simp
  ultimately have "\<bar>rnd x\<bar> < 2 ^ 1024" using assms(1,2) by linarith
  then show ?thesis by (rule to_double_Num_rnd)
qed

lemma maxQuoteLots_of_rel:
  assumes "0 \<le> p" "p < 2 ^ 53" "0 \<le> s" "s < 2 ^ 53" "0 < q" "q < 2 ^ 53"
    and "maxQuoteLots_of (Num (of_int p)) (Num (of_int s)) (Num (of_int q)) = Inr v"
  shows "\<exists>y :: rat. v = \<lfloor>y\<rfloor> \<and> 0 \<le> y
           \<and> of_int (p * s) * (11 / 10) / (1000000 * of_int q) * (1 - 4 / 2 ^ 53) \<le> y
           \<and> y \<le> of_int (p * s) * (11 / 10) / (1000000 * of_int q) * (1 + 6 / 2 ^ 53)"
proof -
  define n where "n = p * s"
  define N Q :: rat where "N = of_int n" and "Q = of_int q"
  define c :: rat where "c = 2476979795053773 / 2251799813685248"
  define y0 where "y0 = rnd N"
  define y1 where "y1 = rnd (y0 * c)"
  define y2 where "y2 = rnd (y1 / 1000000)"
  define y3 where "y3 = rnd (y2 / Q)"
  have n0: "0 \<le> n" using assms(1,3) by (simp add: n_def)
  have "p * s \<le> (2 ^ 53 - 1) * (2 ^ 53 - 1)" using assms(1-4) by (intro mult_mono) auto
  then have nu: "n < 2 ^ 106" by (simp add: n_def)
  have N1: "N = 0 \<or> 1 \<le> N"
  proof (cases "n = 0")
    case True
    then show ?thesis by (simp add: N_def)
  next
    case False
    then have "1 \<le> n" using n0 by simp
    then show ?thesis by (simp add: N_def)
  qed
  have "\<bar>of_int n :: rat\<bar> < 2 ^ 106" using n0 nu by (intro of_int_abs_lt) auto
  then have N2: "N < 2 ^ 106" by (simp add: N_def)
  have Q1: "1 \<le> Q" using assms(5) by (simp add: Q_def)
  have "\<bar>of_int q :: rat\<bar> < 2 ^ 53" using assms(5,6) by (intro of_int_abs_lt) auto
  then have Q2: "Q < 2 ^ 53" by (simp add: Q_def)
  note C = quote_chain_rel[OF N1 Q1 Q2, folded c_def, folded y0_def, folded y1_def,
      folded y2_def, folded y3_def]
  have m0: "js_mul (Num (of_int p)) (Num (of_int s)) = Num y0"
  proof -
    have "to_double N = Num (rnd N)" using C(1) N2 unfolding y0_def by (intro to_double_Num_le) auto
    then show ?thesis by (simp add: N_def n_def y0_def)
  qed
  have m1: "js_mul (Num y0) (Num c) = Num y1"
  proof -
    have "to_double (y0 * c) = Num (rnd (y0 * c))"
      using C(2) N2 unfolding y1_def by (intro to_double_Num_le) auto
    then show ?thesis by (simp add: y1_def)
  qed
  have d1: "js_div (Num y1) (Num 1000000) = Num y2"
  proof -
    have "to_double (y1 / 1000000) = Num (rnd (y1 / 1000000))"
      using C(3) N2 unfolding y2_def by (intro to_double_Num_le) auto
    then show ?thesis by (simp add: y2_def)
  qed
  have d2: "js_div (Num y2) (Num Q) = Num y3"
  proof -
    have "to_double (y2 / Q) = Num (rnd (y2 / Q))"
      using C(4) N2 unfolding y3_def by (intro to_double_Num_le) auto
    moreover have "Q \<noteq> 0" using Q1 by auto
    ultimately show ?thesis by (simp add: y3_def)
  qed
  have "maxQuoteLots_of (Num (of_int p)) (Num (of_int s)) (Num (of_int q))
      = newBN (Num (of_int \<lfloor>y3\<rfloor>))"
    unfolding maxQuoteLots_of_def totalQuoteNeeded_def js_literal_11_10 m0
    using m1 d1 d2 by (simp add: c_def Q_def del: newBN.simps js_mul.simps js_div.simps)
  then have "newBN (Num (of_int \<lfloor>y3\<rfloor>)) = Inr v" using assms(7) by simp
  then have "v = \<lfloor>y3\<rfloor>" by (simp add: js_trunc_of_int split: if_splits)
  then show ?thesis using C(4,5,6) by (auto simp: N_def n_def Q_def)
qed

text \<open>
  The difference of one lot occurs: for a price times size of 511778139090909 and a quote
  lot size of 1 the exact floor is 562955952 and the code gives 562955953.
\<close>

lemma maxQuoteLots_rounded_up:
  "maxQuoteLots_of (Num 511778139090909) (Num 1) (Num 1) = Inr 562955953
   \<and> \<lfloor>(511778139090909 :: rat) * (11 / 10) / (1000000 * 1)\<rfloor> = 562955952"
proof -
  have "maxQuoteLots_of (Num 511778139090909) (Num 1) (Num 1) = Inr 562955953" by code_simp
  moreover have "\<lfloor>(511778139090909 :: rat) * (11 / 10) / (1000000 * 1)\<rfloor> = 562955952"
    by (rule floor_unique) simp_all
  ultimately show ?thesis by simp
qed

text \<open>
  Claim C3, as stated: the maximal quote lots are the floor of price times quantity
  times 1.10 over the quote lot size, price and quantity in smallest-denomination units.
  For 1000 tokens at 1.04 and a quote lot size of 1 the stated formula gives
  1144000000000000 and the code gives 1144000000: the code also divides by 1000000.
\<close>

theorem maxQuoteLots_spec_counterexample:
  "computeOrderArgs 1700000000000 \<lparr>price_param = 1040000, size_param = 1000000000\<rparr>
      \<lparr>baseLotSize = 1, quoteLotSize = 1\<rparr>
    = Inr \<lparr>side = Ask, priceLots = 1, maxBaseLots = 1000000000,
           maxQuoteLotsIncludingFees = 1144000000, clientOrderId = 1700000000000,
           expiryTimestamp = 18446744073709551615, limit = 10\<rparr>
   \<and> spec_maxQuoteLots 1040000 1000000000 1 = 1144000000000000"
  using fixture_unit_lots by (simp add: spec_maxQuoteLots_def)

text \<open>
  Above \<open>2 ^ 50\<close> the difference can be of two lots: for a price of 5314955547116339, a
  size of 414687976 and a quote lot size of 1000 the exact floor is 2424452974200011 and
  the code gives 2424452974200013.
\<close>

lemma maxQuoteLots_rounded_twice:
  "maxQuoteLots_of (Num 5314955547116339) (Num 414687976) (Num 1000) = Inr 2424452974200013
   \<and> \<lfloor>(5314955547116339 * 414687976 :: rat) * (11 / 10) / (1000000 * 1000)\<rfloor> = 2424452974200011"
proof -
  have "maxQuoteLots_of (Num 5314955547116339) (Num 414687976) (Num 1000) = Inr 2424452974200013"
    by code_simp
  moreover have "\<lfloor>(5314955547116339 * 414687976 :: rat) * (11 / 10) / (1000000 * 1000)\<rfloor>
      = 2424452974200011"
    by (rule floor_unique) simp_all
  ultimately show ?thesis by simp
qed

text \<open>
  The largest amount of the form, 1000000 tokens at 1.04, on a market with both lot sizes
  1; the product of price and size is above \<open>2 ^ 53\<close>.
\<close>

lemma fixture_largest_amount:
  "computeOrderArgs 1700000000000 \<lparr>price_param = 1040000, size_param = 1000000000000\<rparr>
      \<lparr>baseLotSize = 1, quoteLotSize = 1\<rparr>
    = Inr \<lparr>side = Ask, priceLots = 1, maxBaseLots = 1000000000000,
           maxQuoteLotsIncludingFees = 1144000000000, clientOrderId = 1700000000000,
           expiryTimestamp = 18446744073709551615, limit = 10\<rparr>"
proof -
  have a: "toNumber 1040000 = Inr (Num 1040000)" "toNumber 1000000000000 = Inr (Num 1000000000000)"
    "toNumber 1 = Inr (Num 1)"
    by (simp_all add: toNumber_def)
  have b: "priceLots_of (Num 1040000) (Num 1) (Num 1) = Inr 1" by code_simp
  have c: "maxBaseLots_of (Num 1000000000000) (Num 1) = Inr 1000000000000" by code_simp
  have d: "maxQuoteLots_of (Num 1040000) (Num 1000000000000) (Num 1) = Inr 1144000000000" by code_simp
  show ?thesis by (simp add: computeOrderArgs_def bindE_def a b c d)
qed

text \<open>
  Claim C3, amended.  Whenever the calculator produces order arguments for a non-negative
  price and size and a positive quote lot size, the maximal quote lots are the floor of a
  value within 4 parts in \<open>2 ^ 53\<close> below and 6 parts in \<open>2 ^ 53\<close> above the exact
  price times size times 11/10 over 1000000 times the quote lot size; when that exact
  value is below \<open>2 ^ 50\<close>, they differ by at most 1 from its floor.  The code divides
  by 1000000 as well, and evaluates the expression in binary64, whose roundings can move
  the value across an integer.
\<close>

theorem maxQuoteLots_within_one:
  assumes "computeOrderArgs now orderParams market = Inr args"
    and "0 \<le> price_param orderParams" and "0 \<le> size_param orderParams"
    and "0 < quoteLotSize market"
  shows "(of_int (price_param orderParams * size_param orderParams) :: rat) * (11 / 10)
            / (1000000 * of_int (quoteLotSize market)) * (1 - 4 / 2 ^ 53) - 1
           < of_int (maxQuoteLotsIncludingFees args)
         \<and> of_int (maxQuoteLotsIncludingFees args)
           \<le> (of_int (price_param orderParams * size_param orderParams) :: rat) * (11 / 10)
               / (1000000 * of_int (quoteLotSize market)) * (1 + 6 / 2 ^ 53)
         \<and> ((of_int (price_param orderParams * size_param orderParams) :: rat) * (11 / 10)
               / (1000000 * of_int (quoteLotSize market)) < 2 ^ 50 \<longrightarrow>
             \<bar>maxQuoteLotsIncludingFees args
               - \<lfloor>(of_int (price_param orderParams * size_param orderParams) :: rat) * (11 / 10)
                   / (1000000 * of_int (quoteLotSize market))\<rfloor>\<bar> \<le> 1)"
proof -
  note D = computeOrderArgs_InrD[OF assms(1)]
  define x :: rat where "x = of_int (price_param orderParams * size_param orderParams) * (11 / 10)
              / (1000000 * of_int (quoteLotSize market))"
  have pb: "price_param orderParams < 2 ^ 53" and sb: "size_param orderParams < 2 ^ 53"
    and qb: "quoteLotSize market < 2 ^ 53"
    using D(1,2,3) by linarith+
  obtain y where y: "maxQuoteLotsIncludingFees args = \<lfloor>y\<rfloor>" "0 \<le> y"
      "x * (1 - 4 / 2 ^ 53) \<le> y" "y \<le> x * (1 + 6 / 2 ^ 53)"
    using maxQuoteLots_of_rel[OF assms(2) pb assms(3) sb assms(4) qb D(7)] unfolding x_def by blast
  have x0: "0 \<le> x" using assms(2,3,4) by (simp add: x_def)
  have f: "y - 1 < of_int \<lfloor>y\<rfloor>" "(of_int \<lfloor>y\<rfloor> :: rat) \<le> y" by linarith+
  have lo: "x * (1 - 4 / 2 ^ 53) - 1 < of_int (maxQuoteLotsIncludingFees args)"
    using y(3) f(1) unfolding y(1) by linarith
  have hi: "of_int (maxQuoteLotsIncludingFees args) \<le> x * (1 + 6 / 2 ^ 53)"
    using y(4) f(2) unfolding y(1) by linarith
  have near: "\<bar>maxQuoteLotsIncludingFees args - \<lfloor>x\<rfloor>\<bar> \<le> 1" if "x < 2 ^ 50"
  proof -
    have "x * (1 + 6 / 2 ^ 53) \<le> x + 1" "x - 1 \<le> x * (1 - 4 / 2 ^ 53)"
      using that x0 by (simp_all add: algebra_simps)
    then have "x - 1 \<le> y" "y \<le> x + 1" using y(3,4) by linarith+
    then have "\<lfloor>x - 1\<rfloor> \<le> \<lfloor>y\<rfloor>" "\<lfloor>y\<rfloor> \<le> \<lfloor>x + 1\<rfloor>" by (simp_all only: floor_mono)
    then have "\<lfloor>x\<rfloor> - 1 \<le> \<lfloor>y\<rfloor>" "\<lfloor>y\<rfloor> \<le> \<lfloor>x\<rfloor> + 1" by simp_all
    then show ?thesis unfolding y(1) by linarith
  qed
  show ?thesis using lo hi near unfolding x_def by blast
qed

theorem maxQuoteLots_within_one_witness:
  "computeOrderArgs 1700000000000 \<lparr>price_param = 1040000, size_param = 1000000000000\<rparr>
      \<lparr>baseLotSize = 1, quoteLotSize = 1\<rparr>
    = Inr \<lparr>side = Ask, priceLots = 1, maxBaseLots = 1000000000000,
           maxQuoteLotsIncludingFees = 1144000000000, clientOrderId = 1700000000000,
           expiryTimestamp = 18446744073709551615, limit = 10\<rparr>
   \<and> (0::int) \<le> 1040000 \<and> (0::int) \<le> 1000000000000 \<and> (0::int) < 1
   \<and> (of_int (1040000 * 1000000000000) :: rat) * (11 / 10) / (1000000 * of_int 1) < 2 ^ 50
   \<and> (of_int (1040000 * 1000000000000) :: rat) * (11 / 10) / (1000000 * of_int 1)
        * (1 - 4 / 2 ^ 53) - 1 < of_int 1144000000000
   \<and> (of_int 1144000000000 :: rat)
       \<le> of_int (1040000 * 1000000000000) * (11 / 10) / (1000000 * of_int 1) * (1 + 6 / 2 ^ 53)
   \<and> \<bar>1144000000000
        - \<lfloor>(of_int (1040000 * 1000000000000) :: rat) * (11 / 10) / (1000000 * of_int 1)\<rfloor>\<bar> \<le> 1"
  using maxQuoteLots_within_one[OF fixture_largest_amount] fixture_largest_amount by simp

section \<open>The connection selector: first live endpoint\<close>

lemma probe_eq:
  "probe ok es tr =
     (case find ok es of Some e \<Rightarrow> Inr e | None \<Rightarrow> Inl AllEndpointsFailed,
      tr @ map GetSlot (takeWhile (\<lambda>e. \<not> ok e) es @ (case find ok es of Some e \<Rightarrow> [e] | None \<Rightarrow> [])))"
proof (induction es arbitrary: tr)
  case Nil
  then show ?case by (simp add: throw_def)
next
  case (Cons e es)
  show ?case
  proof (cases "ok e")
    case True
    then show ?thesis by (simp add: try_catch_def perform_def)
  next
    case False
    then show ?thesis using Cons.IH[of "tr @ [GetSlot e]"]
      by (simp add: try_catch_def perform_def split: option.splits)
  qed
qed

lemma takeWhile_find_None: "find ok es = None \<Longrightarrow> takeWhile (\<lambda>e. \<not> ok e) es = es"
  by (induction es) (auto split: if_splits)

text \<open>
  Claim C5.  The connection selector probes the endpoints in the order of the list and
  returns the first one whose liveness check succeeds; the endpoints probed are the ones
  before it, which all failed, and itself, so no later endpoint is probed.  When no check
  succeeds, every endpoint has been probed once and the call fails with the error
  \<open>AllEndpointsFailed\<close>, which no other step raises.
\<close>

theorem getWorkingConnection_first_live:
  "getWorkingConnection ok tr =
     (case find ok endpoints of
        Some e \<Rightarrow> (Inr e, tr @ map GetSlot (takeWhile (\<lambda>e. \<not> ok e) endpoints @ [e]))
      | None \<Rightarrow> (Inl AllEndpointsFailed, tr @ map GetSlot endpoints))"
  by (simp add: getWorkingConnection_def probe_eq takeWhile_find_None split: option.splits)

theorem getWorkingConnection_first_live_witness:
  "getWorkingConnection (getSlot_ok example_world 0) []
     = (Inr ''https://solana-devnet.rpc.extrnode.com'',
        [GetSlot ''https://api.devnet.solana.com'', GetSlot ''https://solana-devnet.rpc.extrnode.com''])
   \<and> getWorkingConnection (\<lambda>endpoint. False) []
     = (Inl AllEndpointsFailed,
        [GetSlot ''https://api.devnet.solana.com'', GetSlot ''https://solana-devnet.rpc.extrnode.com'',
         GetSlot ''https://ssc-dao.genesysgo.net''])"
  using getWorkingConnection_first_live[of "getSlot_ok example_world 0" "[]"]
        getWorkingConnection_first_live[of "\<lambda>endpoint. False" "[]"]
  by (simp add: example_world_def endpoints_def)

section \<open>The order submitter: broadcasts\<close>

lemma ret_apply: "ret x tr = (Inr x, tr)"
  by (simp add: ret_def)

lemma throw_apply: "throw e tr = (Inl e, tr)"
  by (simp add: throw_def)

lemma lift_apply: "lift r tr = (r, tr)"
  by (simp add: lift_def)

lemma perform_okay:
  "perform c (okay b) tr = (if b then Inr () else Inl (Rejected c), tr @ [c])"
  by (simp add: perform_def okay_def)

lemma perform_apply:
  "perform c r tr = (case r of None \<Rightarrow> Inl (Rejected c) | Some x \<Rightarrow> Inr x, tr @ [c])"
  by (simp add: perform_def)

lemma bind_io_perform_okay:
  "bind_io (perform c (okay b)) f tr
     = (if b then f () (tr @ [c]) else (Inl (Rejected c), tr @ [c]))"
  by (simp add: bind_io_def perform_okay)

text \<open>The calls of a submission that reaches the broadcast.\<close>

lemma createOrder_try_ok:
  assumes "pre_broadcast_ok w orderParams"
  shows "createOrder_try w orderParams tr =
           (case sendRawTransaction_result w of
              None \<Rightarrow> Inl (Rejected SendRawTransaction) | Some h \<Rightarrow> Inr h,
            tr @ [NewClient, MarketFetch, CreateOpenOrdersIx, GetAssociatedTokenAddress,
                  PlaceOrderIx, GetLatestBlockhash, SimulateTransaction, SignTransaction,
                  Serialize, SendRawTransaction])"
  using assms
  by (auto simp: pre_broadcast_ok_def createOrder_try_def bind_io_perform_okay bind_io_def
        perform_apply okay_def ret_apply throw_apply lift_apply
      split: option.splits sum.splits)

lemma createOrder_try_fail:
  assumes "\<not> pre_broadcast_ok w orderParams"
  shows "\<exists>e calls. createOrder_try w orderParams tr = (Inl e, tr @ calls)
                     \<and> SendRawTransaction \<notin> set calls"
  using assms
  by (auto simp: pre_broadcast_ok_def createOrder_try_def bind_io_perform_okay bind_io_def
        perform_apply okay_def ret_apply throw_apply lift_apply
      split: option.splits sum.splits)

lemma createOpenBookV2OrderInstruction_ok:
  assumes "pre_broadcast_ok w orderParams"
  shows "createOpenBookV2OrderInstruction w orderParams tr =
           (Inr (case sendRawTransaction_result w of
                   None \<Rightarrow> \<lparr>success = False, orderId = None,
                             failure = Some (Rejected SendRawTransaction)\<rparr>
                 | Some h \<Rightarrow> \<lparr>success = True, orderId = Some h, failure = None\<rparr>),
            tr @ [NewClient, MarketFetch, CreateOpenOrdersIx, GetAssociatedTokenAddress,
                  PlaceOrderIx, GetLatestBlockhash, SimulateTransaction, SignTransaction,
                  Serialize, SendRawTransaction])"
  by (simp add: createOpenBookV2OrderInstruction_def try_catch_def bind_io_def
        createOrder_try_ok[OF assms] ret_apply split: option.splits)

lemma createOpenBookV2OrderInstruction_fail:
  assumes "\<not> pre_broadcast_ok w orderParams"
  shows "\<exists>e calls. createOpenBookV2OrderInstruction w orderParams tr =
                       (Inr \<lparr>success = False, orderId = None, failure = Some e\<rparr>, tr @ calls)
                     \<and> SendRawTransaction \<notin> set calls"
proof -
  obtain e calls where "createOrder_try w orderParams tr = (Inl e, tr @ calls)"
    "SendRawTransaction \<notin> set calls"
    using createOrder_try_fail[OF assms] by blast
  then show ?thesis
    by (auto simp: createOpenBookV2OrderInstruction_def try_catch_def bind_io_def ret_apply)
qed

lemma createOpenBookV2OrderInstruction_char:
  "\<exists>r calls. createOpenBookV2OrderInstruction w orderParams tr = (Inr r, tr @ calls)
     \<and> success r = (pre_broadcast_ok w orderParams \<and> sendRawTransaction_result w \<noteq> None)
     \<and> count_list calls SendRawTransaction = (if pre_broadcast_ok w orderParams then 1 else 0)"
proof (cases "pre_broadcast_ok w orderParams")
  case True
  then show ?thesis
    using createOpenBookV2OrderInstruction_ok[OF True, of tr]
    by (auto split: option.splits)
next
  case False
  then show ?thesis
    using createOpenBookV2OrderInstruction_fail[OF False, of tr]
    by (auto simp: count_list_0_iff)
qed

lemma getWorkingConnection_eq:
  "getWorkingConnection ok tr =
     (case find ok endpoints of
        Some e \<Rightarrow> (Inr e, tr @ map GetSlot (takeWhile (\<lambda>e. \<not> ok e) endpoints @ [e]))
      | None \<Rightarrow> (Inl AllEndpointsFailed, tr @ map GetSlot endpoints))"
  by (simp add: getWorkingConnection_def probe_eq takeWhile_find_None split: option.splits)

lemma getWorkingConnection_calls:
  "\<exists>calls. getWorkingConnection ok tr =
     (case find ok endpoints of Some e \<Rightarrow> Inr e | None \<Rightarrow> Inl AllEndpointsFailed, tr @ calls)
     \<and> set calls \<subseteq> range GetSlot"
  by (auto simp: getWorkingConnection_eq split: option.splits)

lemma mintIrmaToken_char:
  "\<exists>calls. mintIrmaToken w amount tr =
       (Inr (mint_pre_broadcast_ok w amount \<and> sendRawTransaction_result w \<noteq> None
             \<and> getLatestBlockhash_ok w 1), tr @ calls)
     \<and> count_list calls SendRawTransaction = (if mint_pre_broadcast_ok w amount then 1 else 0)"
proof -
  obtain c1 where c1: "getWorkingConnection (getSlot_ok w 0) (tr @ [Throttle]) =
       (case find (getSlot_ok w 0) endpoints of Some e \<Rightarrow> Inr e | None \<Rightarrow> Inl AllEndpointsFailed,
        (tr @ [Throttle]) @ c1)" "set c1 \<subseteq> range GetSlot"
    using getWorkingConnection_calls by blast
  have n1: "count_list c1 SendRawTransaction = 0" using c1(2) by (auto simp: count_list_0_iff)
  show ?thesis
  proof (cases "find (getSlot_ok w 0) endpoints")
    case None
    then show ?thesis using c1 n1
      by (auto simp: mintIrmaToken_def mintIrmaToken_try_def mint_pre_broadcast_ok_def
            try_catch_def bind_io_def perform_apply ret_apply)
  next
    case (Some e)
    note conn = this
    show ?thesis
    proof (cases "getAccountInfo_ok w")
      case False
      then show ?thesis using c1 n1 conn
        by (auto simp: mintIrmaToken_def mintIrmaToken_try_def mint_pre_broadcast_ok_def
              try_catch_def bind_io_def perform_apply okay_def ret_apply throw_apply)
    next
      case True
      note acc = this
      show ?thesis
      proof (cases "orderParams_of amount")
        case (Inl err)
        then show ?thesis using c1 n1 conn acc
          by (auto simp: mintIrmaToken_def mintIrmaToken_try_def mint_pre_broadcast_ok_def
                try_catch_def bind_io_def perform_apply okay_def ret_apply throw_apply lift_apply)
      next
        case (Inr orderParams)
        obtain r c2 where c2:
          "createOpenBookV2OrderInstruction w orderParams (tr @ [Throttle] @ c1 @ [GetAccountInfo])
             = (Inr r, (tr @ [Throttle] @ c1 @ [GetAccountInfo]) @ c2)"
          "success r = (pre_broadcast_ok w orderParams \<and> sendRawTransaction_result w \<noteq> None)"
          "count_list c2 SendRawTransaction = (if pre_broadcast_ok w orderParams then 1 else 0)"
          using createOpenBookV2OrderInstruction_char by blast
        show ?thesis using c1 n1 conn acc Inr c2
          by (auto simp: mintIrmaToken_def mintIrmaToken_try_def mint_pre_broadcast_ok_def
                try_catch_def bind_io_def perform_apply okay_def ret_apply throw_apply lift_apply)
      qed
    qed
  qed
qed

text \<open>
  Claim C6.  The order submitter always returns a result.  If a step before the broadcast
  fails (the client, the market, the open-orders instructions, the order arguments, the
  token account, the order instruction, the blockhash, the simulation, the signature or
  the serialisation; for \<^verbatim>\<open>mintIrmaToken\<close> also the connection, the market address
  and the order request), the result is a failure and the calls it made contain no
  broadcast; if the result is a success, the calls contain exactly one broadcast.
\<close>

theorem no_broadcast_before_failure:
  "(\<exists>r calls. createOpenBookV2OrderInstruction w orderParams tr = (Inr r, tr @ calls)
      \<and> (\<not> pre_broadcast_ok w orderParams \<longrightarrow>
           \<not> success r \<and> count_list calls SendRawTransaction = 0)
      \<and> (success r \<longrightarrow> count_list calls SendRawTransaction = 1))
   \<and> (\<exists>b calls. mintIrmaToken w amount tr = (Inr b, tr @ calls)
      \<and> (\<not> mint_pre_broadcast_ok w amount \<longrightarrow>
           \<not> b \<and> count_list calls SendRawTransaction = 0)
      \<and> (b \<longrightarrow> count_list calls SendRawTransaction = 1))"
proof
  obtain r calls where "createOpenBookV2OrderInstruction w orderParams tr = (Inr r, tr @ calls)"
    "success r = (pre_broadcast_ok w orderParams \<and> sendRawTransaction_result w \<noteq> None)"
    "count_list calls SendRawTransaction = (if pre_broadcast_ok w orderParams then 1 else 0)"
    using createOpenBookV2OrderInstruction_char by blast
  then show "\<exists>r calls. createOpenBookV2OrderInstruction w orderParams tr = (Inr r, tr @ calls)
      \<and> (\<not> pre_broadcast_ok w orderParams \<longrightarrow>
           \<not> success r \<and> count_list calls SendRawTransaction = 0)
      \<and> (success r \<longrightarrow> count_list calls SendRawTransaction = 1)"
    by auto
next
  obtain calls where "mintIrmaToken w amount tr =
       (Inr (mint_pre_broadcast_ok w amount \<and> sendRawTransaction_result w \<noteq> None
             \<and> getLatestBlockhash_ok w 1), tr @ calls)"
    "count_list calls SendRawTransaction = (if mint_pre_broadcast_ok w amount then 1 else 0)"
    using mintIrmaToken_char by blast
  then show "\<exists>b calls. mintIrmaToken w amount tr = (Inr b, tr @ calls)
      \<and> (\<not> mint_pre_broadcast_ok w amount \<longrightarrow>
           \<not> b \<and> count_list calls SendRawTransaction = 0)
      \<and> (b \<longrightarrow> count_list calls SendRawTransaction = 1)"
    by auto
qed

lemma example_pre_broadcast_ok:
  "pre_broadcast_ok example_world \<lparr>price_param = 1040000, size_param = 1000000000\<rparr>"
  by (simp add: pre_broadcast_ok_def example_world_def fixture_args)

lemma example_unsigned_not_ok:
  "\<not> pre_broadcast_ok (example_world\<lparr>signTransaction_ok := False\<rparr>)
       \<lparr>price_param = 1040000, size_param = 1000000000\<rparr>"
  by (simp add: pre_broadcast_ok_def example_world_def fixture_args)

lemma example_unsigned_result:
  "createOpenBookV2OrderInstruction (example_world\<lparr>signTransaction_ok := False\<rparr>)
       \<lparr>price_param = 1040000, size_param = 1000000000\<rparr> tr
     = (Inr \<lparr>success = False, orderId = None, failure = Some (Rejected SignTransaction)\<rparr>,
        tr @ [NewClient, MarketFetch, CreateOpenOrdersIx, GetAssociatedTokenAddress, PlaceOrderIx,
         GetLatestBlockhash, SimulateTransaction, SignTransaction])"
  by (simp add: createOpenBookV2OrderInstruction_def createOrder_try_def try_catch_def
        bind_io_perform_okay bind_io_def perform_apply okay_def ret_apply throw_apply lift_apply
        example_world_def fixture_args)

theorem no_broadcast_before_failure_witness:
  "createOpenBookV2OrderInstruction example_world
       \<lparr>price_param = 1040000, size_param = 1000000000\<rparr> []
     = (Inr \<lparr>success = True, orderId = Some ''txhash'', failure = None\<rparr>,
        [NewClient, MarketFetch, CreateOpenOrdersIx, GetAssociatedTokenAddress, PlaceOrderIx,
         GetLatestBlockhash, SimulateTransaction, SignTransaction, Serialize, SendRawTransaction])
   \<and> \<not> pre_broadcast_ok (example_world\<lparr>signTransaction_ok := False\<rparr>)
         \<lparr>price_param = 1040000, size_param = 1000000000\<rparr>
   \<and> createOpenBookV2OrderInstruction (example_world\<lparr>signTransaction_ok := False\<rparr>)
       \<lparr>price_param = 1040000, size_param = 1000000000\<rparr> []
     = (Inr \<lparr>success = False, orderId = None, failure = Some (Rejected SignTransaction)\<rparr>,
        [NewClient, MarketFetch, CreateOpenOrdersIx, GetAssociatedTokenAddress, PlaceOrderIx,
         GetLatestBlockhash, SimulateTransaction, SignTransaction])"
  using no_broadcast_before_failure[of example_world
          "\<lparr>price_param = 1040000, size_param = 1000000000\<rparr>" "[]" "Num 1000"]
        no_broadcast_before_failure[of "example_world\<lparr>signTransaction_ok := False\<rparr>"
          "\<lparr>price_param = 1040000, size_param = 1000000000\<rparr>" "[]" "Num 1000"]
        createOpenBookV2OrderInstruction_ok[OF example_pre_broadcast_ok, of "[]"]
        example_unsigned_not_ok example_unsigned_result[of "[]"]
  by (simp add: example_world_def)

text \<open>
  Claim C7.  \<^verbatim>\<open>mintIrmaToken\<close> never throws: for every environment and every amount
  it returns a boolean, and the boolean is true exactly when the connection was acquired,
  the market address was read, the order request was built, every step of the order
  submission up to and including the broadcast succeeded, and the final blockhash
  request succeeded.
\<close>

theorem mintIrmaToken_never_throws:
  "\<exists>calls. mintIrmaToken w amount tr =
     (Inr (mint_pre_broadcast_ok w amount \<and> sendRawTransaction_result w \<noteq> None
           \<and> getLatestBlockhash_ok w 1), tr @ calls)"
  using mintIrmaToken_char[of w amount tr] by blast

lemma example_orderParams:
  "orderParams_of (Num 1000) = Inr \<lparr>price_param = 1040000, size_param = 1000000000\<rparr>"
  by code_simp

lemma example_mint_pre_broadcast_ok: "mint_pre_broadcast_ok example_world (Num 1000)"
  using example_pre_broadcast_ok
  by (simp add: mint_pre_broadcast_ok_def example_orderParams)
     (simp add: example_world_def endpoints_def)

lemma example_unsigned_mint_not_ok:
  "\<not> mint_pre_broadcast_ok (example_world\<lparr>signTransaction_ok := False\<rparr>) (Num 1000)"
  using example_unsigned_not_ok
  by (simp add: mint_pre_broadcast_ok_def example_orderParams)

theorem mintIrmaToken_never_throws_witness:
  "fst (mintIrmaToken example_world (Num 1000) []) = Inr True
   \<and> fst (mintIrmaToken (example_world\<lparr>signTransaction_ok := False\<rparr>) (Num 1000) []) = Inr False"
  using mintIrmaToken_never_throws[of example_world "Num 1000" "[]"]
        mintIrmaToken_never_throws[of "example_world\<lparr>signTransaction_ok := False\<rparr>" "Num 1000" "[]"]
        example_mint_pre_broadcast_ok example_unsigned_mint_not_ok
  by (auto simp: example_world_def)

section \<open>The rate limiter: one call at a time\<close>

lemma separated_snoc:
  assumes "separated ts" and "list_all (\<lambda>a. a \<le> l) ts" and "l + RATE_LIMIT_DELAY \<le> t"
  shows "separated (ts @ [t])"
proof -
  have "a + RATE_LIMIT_DELAY \<le> t" if "a \<in> set ts" for a
  proof -
    have "a \<le> l" using assms(2) that by (simp add: list_all_iff)
    then show ?thesis using assms(3) by linarith
  qed
  then show ?thesis using assms(1) by (simp add: separated_def sorted_wrt_append)
qed

lemma list_all_le_snoc:
  assumes "list_all (\<lambda>r. snd r \<le> (l::int)) rs" and "l \<le> t"
  shows "list_all (\<lambda>r. snd r \<le> t) (rs @ [(c, t)])"
proof -
  have "snd r \<le> t" if "r \<in> set rs" for r
  proof -
    have "snd r \<le> l" using assms(1) that by (simp add: list_all_iff)
    then show ?thesis using assms(2) by linarith
  qed
  then show ?thesis by (simp add: list_all_iff)
qed

lemma throttle_inv_return:
  assumes "throttle_inv rl" and "lastRequestTime rl + RATE_LIMIT_DELAY \<le> t"
  shows "throttle_inv (rl\<lparr>lastRequestTime := t, clock := later, suspended := [],
                          returned := returned rl @ [(c, t)]\<rparr>)"
proof -
  have s: "separated (map snd (returned rl))"
    and l: "list_all (\<lambda>r. snd r \<le> lastRequestTime rl) (returned rl)"
    using assms(1) by (simp_all add: throttle_inv_def)
  have "list_all (\<lambda>a. a \<le> lastRequestTime rl) (map snd (returned rl))"
    using l by (simp add: list_all_iff)
  then have "separated (map snd (returned rl) @ [t])" using s assms(2) by (intro separated_snoc)
  moreover have "lastRequestTime rl \<le> t" using assms(2) by (simp add: RATE_LIMIT_DELAY_def)
  then have "list_all (\<lambda>r. snd r \<le> t) (returned rl @ [(c, t)])" using l by (intro list_all_le_snoc)
  ultimately show ?thesis by (simp add: throttle_inv_def)
qed

lemma throttle_step_returned:
  assumes "throttle_step e rl = Some rl'"
  shows "returned rl' = returned rl \<or> (\<exists>r. returned rl' = returned rl @ [r])"
  using assms by (cases e) (auto simp: Let_def split: list.splits option.splits if_splits)

lemma throttle_run_returned:
  assumes "throttle_run es rl = Some rl'"
  shows "\<exists>rs. returned rl' = returned rl @ rs"
  using assms
proof (induction es arbitrary: rl)
  case Nil
  then show ?case by simp
next
  case (Cons e es)
  then obtain rl1 where 1: "throttle_step e rl = Some rl1" and 2: "throttle_run es rl1 = Some rl'"
    by (auto split: option.splits)
  from Cons.IH[OF 2] obtain rs where "returned rl' = returned rl1 @ rs" by blast
  then show ?case using throttle_step_returned[OF 1] by auto
qed

lemma throttle_step_inv:
  assumes "throttle_inv rl" and "throttle_step e rl = Some rl'"
    and "case e of Call i \<Rightarrow> suspended rl = [] | Timer i \<Rightarrow> True"
    and "list_all on_time (returned rl')"
  shows "throttle_inv rl'"
proof (cases e)
  case (Call i)
  then have e: "suspended rl = []" using assms(3) by simp
  from assms(2) Call obtain now readings where c: "clock rl = now # readings"
    by (auto split: list.splits)
  show ?thesis
  proof (cases "now - lastRequestTime rl < RATE_LIMIT_DELAY")
    case True
    then have "rl' = rl\<lparr>clock := readings,
        suspended := [\<lparr>call_id = i, entered = now,
                       waitTime = RATE_LIMIT_DELAY - (now - lastRequestTime rl)\<rparr>]\<rparr>"
      using assms(2) Call c e by (simp add: Let_def)
    then show ?thesis using assms(1) by (simp add: throttle_inv_def)
  next
    case False
    then obtain t later where r: "readings = t # later"
      and rl': "rl' = rl\<lparr>lastRequestTime := t, clock := later,
                  returned := returned rl @ [(\<lparr>call_id = i, entered = now, waitTime = 0\<rparr>, t)]\<rparr>"
      using assms(2) Call c by (auto simp: Let_def split: list.splits)
    have "now \<le> t" using assms(4) by (simp add: rl' on_time_def)
    then have "lastRequestTime rl + RATE_LIMIT_DELAY \<le> t" using False by linarith
    then have "throttle_inv (rl\<lparr>lastRequestTime := t, clock := later, suspended := [],
        returned := returned rl @ [(\<lparr>call_id = i, entered = now, waitTime = 0\<rparr>, t)]\<rparr>)"
      using assms(1) by (intro throttle_inv_return)
    then show ?thesis using e by (simp add: rl' throttle_inv_def)
  qed
next
  case (Timer i)
  from assms(2) Timer obtain c t later where f: "find (\<lambda>c. call_id c = i) (suspended rl) = Some c"
    and cl: "clock rl = t # later"
    and rl': "rl' = rl\<lparr>lastRequestTime := t, clock := later,
                  suspended := remove1 c (suspended rl), returned := returned rl @ [(c, t)]\<rparr>"
    by (auto split: option.splits list.splits)
  have "c \<in> set (suspended rl)" using f by (auto simp: find_Some_iff)
  then have s: "suspended rl = [c]"
    and d: "entered c + waitTime c = lastRequestTime rl + RATE_LIMIT_DELAY"
    using assms(1) by (auto simp: throttle_inv_def split: list.splits)
  have "entered c + waitTime c \<le> t" using assms(4) by (simp add: rl' on_time_def)
  then have "lastRequestTime rl + RATE_LIMIT_DELAY \<le> t" using d by linarith
  then have "throttle_inv (rl\<lparr>lastRequestTime := t, clock := later, suspended := [],
      returned := returned rl @ [(c, t)]\<rparr>)"
    using assms(1) by (intro throttle_inv_return)
  then show ?thesis by (simp add: rl' s)
qed

lemma throttle_run_inv:
  assumes "throttle_inv rl" and "throttle_run es rl = Some rl'" and "one_at_a_time es rl"
    and "list_all on_time (returned rl')"
  shows "throttle_inv rl'"
  using assms
proof (induction es arbitrary: rl)
  case Nil
  then show ?case by simp
next
  case (Cons e es)
  from Cons.prems(2) obtain rl1 where 1: "throttle_step e rl = Some rl1" and 2: "throttle_run es rl1 = Some rl'"
    by (auto split: option.splits)
  from throttle_run_returned[OF 2] obtain rs where "returned rl' = returned rl1 @ rs" by blast
  then have t: "list_all on_time (returned rl1)" using Cons.prems(4) by simp
  have g: "case e of Call i \<Rightarrow> suspended rl = [] | Timer i \<Rightarrow> True"
    and o: "one_at_a_time es rl1"
    using Cons.prems(3) 1 by simp_all
  have "throttle_inv rl1" using Cons.prems(1) 1 g t by (rule throttle_step_inv)
  then show ?case using 2 o Cons.prems(4) by (rule Cons.IH)
qed

lemma throttle_inv_new: "throttle_inv (newRateLimiter readings)"
  by (simp add: throttle_inv_def newRateLimiter_def separated_def)

text \<open>
  Claim C9, as stated: no two calls of \<^verbatim>\<open>throttle\<close> return less than 1000 ms apart.
  A first call returns at the reading 5000; two more calls enter at 5010 and 5020 while
  it is the stored reading, wait 990 ms and 980 ms, and return at 6000 and 6001, each on
  time and 1 ms apart: a call that is suspended does not see the call before it.
\<close>

theorem throttle_overlapping_counterexample:
  "throttle_run [Call 1, Call 2, Call 3, Timer 2, Timer 3]
       (newRateLimiter [5000, 5000, 5010, 5020, 6000, 6001])
     = Some \<lparr>lastRequestTime = 6001, clock = [], suspended = [],
             returned = [(\<lparr>call_id = 1, entered = 5000, waitTime = 0\<rparr>, 5000),
                         (\<lparr>call_id = 2, entered = 5010, waitTime = 990\<rparr>, 6000),
                         (\<lparr>call_id = 3, entered = 5020, waitTime = 980\<rparr>, 6001)]\<rparr>
   \<and> on_time (\<lparr>call_id = 1, entered = 5000, waitTime = 0\<rparr>, 5000)
   \<and> on_time (\<lparr>call_id = 2, entered = 5010, waitTime = 990\<rparr>, 6000)
   \<and> on_time (\<lparr>call_id = 3, entered = 5020, waitTime = 980\<rparr>, 6001)
   \<and> \<not> separated [5000, 6000, 6001]"
  by (simp add: newRateLimiter_def RATE_LIMIT_DELAY_def on_time_def separated_def)

text \<open>
  Claim C9, amended.  When no call is made while another is suspended and every call
  returns on time (its timer does not resume it early, and the clock does not run
  backwards), the readings at which the calls of a new limiter return are, in the order
  of the returns, each at least 1000 ms after the one before, so any two are at least
  1000 ms apart.
\<close>

theorem throttle_one_at_a_time:
  assumes "throttle_run es (newRateLimiter readings) = Some rl"
    and "one_at_a_time es (newRateLimiter readings)"
    and "list_all on_time (returned rl)"
  shows "separated (map snd (returned rl))"
proof -
  have "throttle_inv rl" using throttle_inv_new assms by (rule throttle_run_inv)
  then show ?thesis by (simp add: throttle_inv_def)
qed

text \<open>
  Three calls in turn: the second enters 10 ms after the first returned and waits 990 ms,
  the third enters 1500 ms after the second returned and does not wait.
\<close>

lemma example_sequential_run:
  "throttle_run [Call 1, Call 2, Timer 2, Call 3]
       (newRateLimiter [5000, 5000, 5010, 6000, 7500, 7501])
     = Some \<lparr>lastRequestTime = 7501, clock = [], suspended = [],
             returned = [(\<lparr>call_id = 1, entered = 5000, waitTime = 0\<rparr>, 5000),
                         (\<lparr>call_id = 2, entered = 5010, waitTime = 990\<rparr>, 6000),
                         (\<lparr>call_id = 3, entered = 7500, waitTime = 0\<rparr>, 7501)]\<rparr>"
  by (simp add: newRateLimiter_def RATE_LIMIT_DELAY_def)

lemma example_sequential_one_at_a_time:
  "one_at_a_time [Call 1, Call 2, Timer 2, Call 3]
       (newRateLimiter [5000, 5000, 5010, 6000, 7500, 7501])"
  by (simp add: newRateLimiter_def RATE_LIMIT_DELAY_def)

theorem throttle_one_at_a_time_witness:
  "throttle_run [Call 1, Call 2, Timer 2, Call 3]
       (newRateLimiter [5000, 5000, 5010, 6000, 7500, 7501])
     = Some \<lparr>lastRequestTime = 7501, clock = [], suspended = [],
             returned = [(\<lparr>call_id = 1, entered = 5000, waitTime = 0\<rparr>, 5000),
                         (\<lparr>call_id = 2, entered = 5010, waitTime = 990\<rparr>, 6000),
                         (\<lparr>call_id = 3, entered = 7500, waitTime = 0\<rparr>, 7501)]\<rparr>
   \<and> one_at_a_time [Call 1, Call 2, Timer 2, Call 3]
        (newRateLimiter [5000, 5000, 5010, 6000, 7500, 7501])
   \<and> on_time (\<lparr>call_id = 1, entered = 5000, waitTime = 0\<rparr>, 5000)
   \<and> on_time (\<lparr>call_id = 2, entered = 5010, waitTime = 990\<rparr>, 6000)
   \<and> on_time (\<lparr>call_id = 3, entered = 7500, waitTime = 0\<rparr>, 7501)
   \<and> separated [5000, 6000, 7501]"
  using throttle_one_at_a_time[OF example_sequential_run example_sequential_one_at_a_time]
    example_sequential_run example_sequential_one_at_a_time
  by (simp add: on_time_def)

section \<open>The order status: a constant\<close>

text \<open>
  Claim C10.  For every order id \<^verbatim>\<open>getOrderStatus\<close> returns a record, never null,
  and the record is the constant one: status pending, filled amount 0, remaining amount
  0 and price 1.04.
\<close>

theorem getOrderStatus_placeholder:
  "getOrderStatus order_id tr =
     (Inr (Some \<lparr>status = Pending, filledAmount = Num 0, remainingAmount = Num 0,
                 price = js_literal (26 / 25)\<rparr>), tr)"
  by (simp add: getOrderStatus_def try_catch_def ret_def)

section \<open>The balance reader: a wallet without token accounts\<close>

lemma fetchOne_empty:
  assumes "tokenAccountsByMint w (fst token) = Some []"
  shows "\<exists>calls. fetchOne w token tr = (Inr (zeroBalance token), tr @ calls)
                   \<and> GetParsedTokenAccountsByProgram \<notin> set calls"
  using assms
  by (auto simp: fetchOne_def try_catch_def bind_io_def perform_apply okay_def ret_apply)

lemma fetchAll_empty:
  assumes "\<forall>token \<in> set tokens. tokenAccountsByMint w (fst token) = Some []"
  shows "\<exists>calls. fetchAll w tokens balances tr = (Inr (balances @ map zeroBalance tokens), tr @ calls)
                   \<and> GetParsedTokenAccountsByProgram \<notin> set calls"
  using assms
proof (induction tokens arbitrary: balances tr)
  case Nil
  then show ?case by (simp add: ret_apply)
next
  case (Cons token rest)
  obtain c1 where c1: "fetchOne w token tr = (Inr (zeroBalance token), tr @ c1)"
    "GetParsedTokenAccountsByProgram \<notin> set c1"
    using fetchOne_empty[of w token tr] Cons.prems by auto
  obtain c2 where c2: "fetchAll w rest (balances @ [zeroBalance token]) (tr @ c1)
      = (Inr ((balances @ [zeroBalance token]) @ map zeroBalance rest), (tr @ c1) @ c2)"
    "GetParsedTokenAccountsByProgram \<notin> set c2"
    using Cons.IH[of "balances @ [zeroBalance token]" "tr @ c1"] Cons.prems by auto
  have "fetchAll w (token # rest) balances tr
      = (Inr (balances @ map zeroBalance (token # rest)), tr @ (c1 @ c2))"
    using c1(1) c2(1) by (simp add: bind_io_def)
  moreover have "GetParsedTokenAccountsByProgram \<notin> set (c1 @ c2)" using c1(2) c2(2) by simp
  ultimately show ?case by blast
qed

lemma scanAll_returns:
  "scanAll w tr = (Inr (), tr @ [GetParsedTokenAccountsByProgram])"
  by (simp add: scanAll_def try_catch_def bind_io_def perform_apply ret_apply split: option.splits)

text \<open>
  Claim C8.  For a connected wallet, a reachable endpoint and no token account for any
  tracked token, the balance reader sets one record per tracked token, in the order of
  the list, each with balance 0 and 6 decimals, and no error message; it requests the scan
  of all token accounts exactly once, and whatever the scan answers, also when it fails,
  the result is the same.
\<close>

theorem fetchTokenBalances_no_accounts:
  assumes "find (getSlot_ok w 0) endpoints \<noteq> None"
    and "\<forall>token \<in> set TOKENS. tokenAccountsByMint w (fst token) = Some []"
  shows "\<exists>calls. fetchTokenBalances w True st tr =
           (Inr \<lparr>tokenBalances =
                   [\<lparr>mint = ''IRMA'', symbol = ''IRMA'', balance = Num 0, decimals = 6,
                     mintAddress = ''BGySzmvQrR69thSD5iVhhBrQ1CLnFYKakszRFuzwb1yj''\<rparr>,
                    \<lparr>mint = ''USDC'', symbol = ''USDC'', balance = Num 0, decimals = 6,
                     mintAddress = ''7zSzGfA7r8cxhGPyJUX2CJzViLS9FX7a2b3F94qcZLkU''\<rparr>],
                 error_message = None\<rparr>, tr @ calls)
         \<and> count_list calls GetParsedTokenAccountsByProgram = 1"
proof -
  obtain e where e: "find (getSlot_ok w 0) endpoints = Some e" using assms(1) by auto
  obtain c1 where c1: "getWorkingConnection (getSlot_ok w 0) tr = (Inr e, tr @ c1)"
    "set c1 \<subseteq> range GetSlot"
    using getWorkingConnection_calls[of "getSlot_ok w 0" tr] e by auto
  obtain c2 where c2: "fetchAll w TOKENS [] (tr @ c1) = (Inr ([] @ map zeroBalance TOKENS), (tr @ c1) @ c2)"
    "GetParsedTokenAccountsByProgram \<notin> set c2"
    using fetchAll_empty[OF assms(2), of "[]" "tr @ c1"] by blast
  have z: "list_all (\<lambda>b. balance b = Num 0) (map zeroBalance TOKENS)"
    by (simp add: TOKENS_def zeroBalance_def)
  have "fetchTokenBalances w True st tr =
      (Inr \<lparr>tokenBalances = map zeroBalance TOKENS, error_message = None\<rparr>,
       tr @ (c1 @ c2 @ [GetParsedTokenAccountsByProgram]))"
    using c1(1) c2(1) z
    by (simp add: fetchTokenBalances_def try_catch_def bind_io_def scanAll_returns ret_apply)
  moreover have "count_list (c1 @ c2 @ [GetParsedTokenAccountsByProgram]) GetParsedTokenAccountsByProgram = 1"
    using c1(2) c2(2) by (auto simp: count_list_0_iff)
  ultimately show ?thesis by (auto simp: TOKENS_def zeroBalance_def)
qed

theorem fetchTokenBalances_no_accounts_witness:
  "find (getSlot_ok example_world 0) endpoints \<noteq> None
   \<and> tokenAccountsByMint example_world ''BGySzmvQrR69thSD5iVhhBrQ1CLnFYKakszRFuzwb1yj'' = Some []
   \<and> tokenAccountsByMint example_world ''7zSzGfA7r8cxhGPyJUX2CJzViLS9FX7a2b3F94qcZLkU'' = Some []
   \<and> tokenAccountsByProgram example_world = None
   \<and> fst (fetchTokenBalances example_world True \<lparr>tokenBalances = [], error_message = None\<rparr> [])
     = Inr \<lparr>tokenBalances =
                   [\<lparr>mint = ''IRMA'', symbol = ''IRMA'', balance = Num 0, decimals = 6,
                     mintAddress = ''BGySzmvQrR69thSD5iVhhBrQ1CLnFYKakszRFuzwb1yj''\<rparr>,
                    \<lparr>mint = ''USDC'', symbol = ''USDC'', balance = Num 0, decimals = 6,
                     mintAddress = ''7zSzGfA7r8cxhGPyJUX2CJzViLS9FX7a2b3F94qcZLkU''\<rparr>],
                 error_message = None\<rparr>"
proof -
  have a: "find (getSlot_ok example_world 0) endpoints \<noteq> None"
    by (simp add: example_world_def endpoints_def)
  have b: "\<forall>token \<in> set TOKENS. tokenAccountsByMint example_world (fst token) = Some []"
    by (simp add: example_world_def)
  from fetchTokenBalances_no_accounts[OF a b, of "\<lparr>tokenBalances = [], error_message = None\<rparr>" "[]"]
  show ?thesis using a b by (auto simp: example_world_def)
qed

end
